theory Spec2Isabelle
  imports Complex_Main "HOL-Library.Log_Nat"
begin

section \<open>Values shared by the corpus modules\<close>

text \<open>
  A \<open>string\<close> is a JavaScript string whose code units lie between U+0000 and U+00FF, one
  \<open>char\<close> for each code unit; \<open>of_char\<close> gives the code unit. The white space that
  \<open>trim\<close> strips and that the regular expression class \<open>\s\<close> matches is WhiteSpace and
  LineTerminator of ECMAScript, listed in \<open>WHITE_SPACE\<close> by code point. Of these, tab,
  line feed, vertical tab, form feed, carriage return, space and the no-break space
  U+00A0 occur in a \<open>string\<close>; the others lie above U+00FF, as do the line terminators
  U+2028 and U+2029 that the regular expression \<open>.\<close> does not match.

  JavaScript numbers that count things are \<open>nat\<close> or \<open>int\<close>. Every other number is the
  \<open>real\<close> that the double denotes: embedding components and the scores of hits are data
  that the program passes on; where the program computes with them (the fused scores of
  \<open>reciprocalRankFusion\<close>), each operation rounds its exact result to the nearest double.
\<close>

type_synonym vector = "real list"

text \<open>What a \<open>throw\<close> or a rejected promise carries. \<open>Rejected\<close> is a failure reported by
  an external service (embedding provider, vector store, file system, PDF library);
  \<open>UndefinedThrown\<close> is \<open>throw undefined\<close>.\<close>

datatype error =
    Error string
  | TypeError string
  | RangeError string
  | ZodError string
  | Rejected string
  | UndefinedThrown

fun stringifyError :: "error \<Rightarrow> string" where
  "stringifyError (Error m) = m"
| "stringifyError (TypeError m) = m"
| "stringifyError (RangeError m) = m"
| "stringifyError (ZodError m) = m"
| "stringifyError (Rejected m) = m"
| "stringifyError UndefinedThrown = ''undefined''"

definition WHITE_SPACE :: "int list" where
  "WHITE_SPACE = [0x09, 0x0A, 0x0B, 0x0C, 0x0D, 0x20, 0xA0, 0x1680,
                  0x2000, 0x2001, 0x2002, 0x2003, 0x2004, 0x2005, 0x2006, 0x2007, 0x2008, 0x2009, 0x200A,
                  0x2028, 0x2029, 0x202F, 0x205F, 0x3000, 0xFEFF]"

definition isSpace :: "char \<Rightarrow> bool" where
  "isSpace c = (of_char c \<in> set WHITE_SPACE)"

definition trim :: "string \<Rightarrow> string" where
  "trim t = rev (dropWhile isSpace (rev (dropWhile isSpace t)))"

definition digit :: "nat \<Rightarrow> char" where
  "digit d = ''0123456789'' ! d"

text \<open>The decimal rendering of a number in a template literal.\<close>

function show_nat :: "nat \<Rightarrow> string" where
  "n < 10 \<Longrightarrow> show_nat n = [digit n]"
| "10 \<le> n \<Longrightarrow> show_nat n = show_nat (n div 10) @ [digit (n mod 10)]"
  by (atomize_elim, auto)
termination
  by (relation "measure (\<lambda>n. n)") auto






datatype level = Info | Warn

text \<open>
  Everything the program does to the outside is recorded in one trace, in the order it
  happens: cache reads, calls of the embedding provider, calls of the vector store, file
  reads, timer waits and log lines.
\<close>

datatype event =
    CacheGet string
  | EmbedQuery string
  | EmbedDocuments "string list"
  | Sleep int
  | Log level string
  | ReadFile string
  | ParsePdf
  | GetCollection
  | CreateCollection
  | CreatePayloadIndex string string
  | Upsert "string list"
  | Search nat

text \<open>
  The mutable state: the clock read by \<open>Date.now()\<close>, the trace, the fields of one
  EmbeddingGenerator (its node-cache store as an association list in insertion order, the
  rate limiter's time stamps), the number of provider calls and of store calls made so
  far, and the ids of the points held by the vector store.
\<close>

record world =
  now :: int
  trace :: "event list"
  cache :: "(string \<times> vector) list"
  requestTimestamps :: "int list"
  providerCalls :: nat
  storeCalls :: nat
  points :: "string list"

definition emit :: "event \<Rightarrow> world \<Rightarrow> world" where
  "emit e s = s\<lparr>trace := trace s @ [e]\<rparr>"

section \<open>Embedding generation\<close>

definition VECTOR_SIZE :: nat where "VECTOR_SIZE = 3072"
definition DEFAULT_BATCH_SIZE :: int where "DEFAULT_BATCH_SIZE = 100"
definition DEFAULT_MAX_CONCURRENCY :: int where "DEFAULT_MAX_CONCURRENCY = 5"
definition MAX_CACHE_ENTRIES :: nat where "MAX_CACHE_ENTRIES = 1000"
definition DEFAULT_RATE_LIMIT_PER_MINUTE :: int where "DEFAULT_RATE_LIMIT_PER_MINUTE = 3000"
definition ONE_MINUTE_MS :: int where "ONE_MINUTE_MS = 60000"

record EmbeddingGeneratorOptions =
  opt_batchSize :: "int option"
  opt_maxConcurrency :: "int option"
  opt_rateLimitPerMinute :: "int option"

record generator =
  batchSize :: int
  maxConcurrency :: int
  cacheSize :: nat
  rateLimitPerMinute :: int

text \<open>The constructor: the API key is required, every option has a default.\<close>

definition EmbeddingGenerator :: "string \<Rightarrow> EmbeddingGeneratorOptions \<Rightarrow> error + generator" where
  "EmbeddingGenerator apiKey options =
     (if apiKey = [] then Inl (Error ''OpenAI API key is required for embeddings'')
      else Inr \<lparr> batchSize = (case opt_batchSize options of None \<Rightarrow> DEFAULT_BATCH_SIZE | Some b \<Rightarrow> b),
                 maxConcurrency =
                   (case opt_maxConcurrency options of None \<Rightarrow> DEFAULT_MAX_CONCURRENCY | Some c \<Rightarrow> c),
                 cacheSize = MAX_CACHE_ENTRIES,
                 rateLimitPerMinute =
                   (case opt_rateLimitPerMinute options of
                      None \<Rightarrow> DEFAULT_RATE_LIMIT_PER_MINUTE | Some r \<Rightarrow> r) \<rparr>)"

text \<open>
  The embedding provider is outside the program. Its answer to a call is a function of
  the number of provider calls made before it and of the texts sent, so a provider may
  fail on some calls and answer on others.
\<close>

record provider =
  embedQuery :: "nat \<Rightarrow> string \<Rightarrow> error + vector"
  embedDocuments :: "nat \<Rightarrow> string list \<Rightarrow> error + vector list"

text \<open>\<open>cacheKey\<close> is the MD5 digest of the text in hexadecimal; the digest function of
  node:crypto is the parameter \<open>md5\<close>.\<close>

definition cacheKey :: "(string \<Rightarrow> string) \<Rightarrow> string \<Rightarrow> string" where
  "cacheKey md5 t = md5 t"

definition delay :: "int \<Rightarrow> world \<Rightarrow> world" where
  "delay ms s = (if ms \<le> 0 then s else emit (Sleep ms) (s\<lparr>now := now s + ms\<rparr>))"

text \<open>\<open>this.cache.get(key)\<close>, \<open>has\<close>, \<open>keys\<close>, \<open>del\<close> and \<open>set\<close> of node-cache, at one
  instant (entries do not expire while a call runs). \<open>set\<close> on a key that is present keeps
  its place in the key order.\<close>

definition cache_get :: "string \<Rightarrow> world \<Rightarrow> vector option \<times> world" where
  "cache_get k s = (map_of (cache s) k, emit (CacheGet k) s)"

fun cache_set :: "string \<Rightarrow> vector \<Rightarrow> (string \<times> vector) list \<Rightarrow> (string \<times> vector) list" where
  "cache_set k v [] = [(k, v)]"
| "cache_set k v (p # ps) = (if fst p = k then (k, v) # ps else p # cache_set k v ps)"

definition cache_del :: "string \<Rightarrow> (string \<times> vector) list \<Rightarrow> (string \<times> vector) list" where
  "cache_del k c = filter (\<lambda>p. fst p \<noteq> k) c"

definition setCacheEntry :: "generator \<Rightarrow> string \<Rightarrow> vector \<Rightarrow> world \<Rightarrow> world" where
  "setCacheEntry g k v s =
     (let c = cache s;
          c' = (if length c \<ge> cacheSize g \<and> map_of c k = None
                then (case c of
                        [] \<Rightarrow> c
                      | oldest # _ \<Rightarrow> if fst oldest \<noteq> [] then cache_del (fst oldest) c else c)
                else c)
      in s\<lparr>cache := cache_set k v c'\<rparr>)"

definition ensureVectorSize :: "vector \<Rightarrow> string \<Rightarrow> world \<Rightarrow> world" where
  "ensureVectorSize v sourceText s =
     (if length v \<noteq> VECTOR_SIZE
      then emit (Log Warn (''Unexpected embedding size ('' @ show_nat (length v)
                  @ '') for text snippet: '' @ take 32 sourceText @ ''...'')) s
      else s)"

text \<open>
  \<open>executeWithRetry\<close>: the loop \<open>for (attempt = 1; attempt <= attempts; attempt++)\<close>. The
  first argument of the loop function is the number of attempts left. After a failed
  attempt the loop logs, then waits \<open>2 ** attempt * 100\<close> milliseconds; when no attempt
  is left it throws the last error caught.
\<close>

definition backoff :: "nat \<Rightarrow> error \<Rightarrow> world \<Rightarrow> world" where
  "backoff attempt e s =
     (let delayMs = 2 ^ attempt * 100
      in delay delayMs
           (emit (Log Warn (''Embedding request failed (attempt '' @ show_nat attempt @ ''): ''
                    @ stringifyError e)) s))"

fun retryLoop :: "nat \<Rightarrow> nat \<Rightarrow> (world \<Rightarrow> (error + 'a) \<times> world) \<Rightarrow> error option \<Rightarrow> world
    \<Rightarrow> (error + 'a) \<times> world" where
  "retryLoop 0 attempt fn lastError s =
     (Inl (case lastError of None \<Rightarrow> UndefinedThrown | Some e \<Rightarrow> e), s)"
| "retryLoop (Suc left) attempt fn lastError s =
     (case fn s of
        (Inr v, s') \<Rightarrow> (Inr v, s')
      | (Inl e, s') \<Rightarrow> retryLoop left (Suc attempt) fn (Some e) (backoff attempt e s'))"

definition executeWithRetry :: "(world \<Rightarrow> (error + 'a) \<times> world) \<Rightarrow> nat \<Rightarrow> world
    \<Rightarrow> (error + 'a) \<times> world" where
  "executeWithRetry fn attempts s = retryLoop attempts 1 fn None s"

text \<open>
  \<open>enforceRateLimit\<close>: time stamps older than a minute are dropped from the front; when
  the window is full the call waits until the oldest stamp leaves it. With an empty
  window and a limit of zero or less the wait is \<open>NaN\<close>, which the timer runs as one
  millisecond.
\<close>

definition enforceRateLimit :: "generator \<Rightarrow> world \<Rightarrow> world" where
  "enforceRateLimit g s =
     (let now0 = now s;
          ts = dropWhile (\<lambda>t. now0 - t > ONE_MINUTE_MS) (requestTimestamps s);
          s1 = s\<lparr>requestTimestamps := ts\<rparr>;
          s2 = (if int (length ts) \<ge> rateLimitPerMinute g
                then (case ts of
                        [] \<Rightarrow> delay 1 s1
                      | t # _ \<Rightarrow> delay (ONE_MINUTE_MS - (now0 - t) + 5) s1)
                else s1)
      in s2\<lparr>requestTimestamps := requestTimestamps s2 @ [now s2]\<rparr>)"

definition callEmbedQuery :: "provider \<Rightarrow> string \<Rightarrow> world \<Rightarrow> (error + vector) \<times> world" where
  "callEmbedQuery P t s =
     (embedQuery P (providerCalls s) t,
      emit (EmbedQuery t) (s\<lparr>providerCalls := Suc (providerCalls s)\<rparr>))"

definition callEmbedDocuments :: "provider \<Rightarrow> string list \<Rightarrow> world
    \<Rightarrow> (error + vector list) \<times> world" where
  "callEmbedDocuments P ts s =
     (embedDocuments P (providerCalls s) ts,
      emit (EmbedDocuments ts) (s\<lparr>providerCalls := Suc (providerCalls s)\<rparr>))"

definition embedText :: "generator \<Rightarrow> provider \<Rightarrow> (string \<Rightarrow> string) \<Rightarrow> string \<Rightarrow> world
    \<Rightarrow> (error + vector) \<times> world" where
  "embedText g P md5 t s =
     (let trimmed = trim t in
      if trimmed = [] then (Inl (Error ''Cannot embed empty text''), s)
      else
        let key = cacheKey md5 trimmed in
        (case cache_get key s of
           (Some cached, s1) \<Rightarrow> (Inr cached, s1)
         | (None, s1) \<Rightarrow>
             (case executeWithRetry (\<lambda>u. callEmbedQuery P trimmed (enforceRateLimit g u)) 5 s1 of
                (Inl e, s2) \<Rightarrow> (Inl e, s2)
              | (Inr embedding, s2) \<Rightarrow>
                  (Inr embedding, ensureVectorSize embedding trimmed (setCacheEntry g key embedding s2)))))"

text \<open>
  \<open>embedTextsChunk\<close>. \<open>new Array(n)\<close> is an array of \<open>n\<close> holes; a slot is \<open>None\<close>
  while it is a hole and \<open>Some v\<close> once a vector has been stored in it. The first loop
  looks every text up in the cache under the key of the text as given (not trimmed) and
  collects the misses with their indices, duplicates included.
\<close>

type_synonym slots = "vector option list"

fun checkCache :: "(string \<Rightarrow> string) \<Rightarrow> nat \<Rightarrow> string list \<Rightarrow> slots \<times> string list \<times> nat list
    \<Rightarrow> world \<Rightarrow> (slots \<times> string list \<times> nat list) \<times> world" where
  "checkCache md5 index [] acc s = (acc, s)"
| "checkCache md5 index (t # rest) (vectors, uncachedTexts, uncachedIndices) s =
     (case cache_get (cacheKey md5 t) s of
        (Some cached, s') \<Rightarrow>
          checkCache md5 (Suc index) rest (vectors[index := Some cached], uncachedTexts, uncachedIndices) s'
      | (None, s') \<Rightarrow>
          checkCache md5 (Suc index) rest (vectors, uncachedTexts @ [t], uncachedIndices @ [index]) s')"

text \<open>
  The loop over the fetched vectors. A provider that answers with more vectors than
  texts makes \<open>uncachedTexts[idx]\<close> undefined: reading \<open>slice\<close> of it for the size
  warning, or hashing it, throws a TypeError.
\<close>

fun storeFetched :: "generator \<Rightarrow> (string \<Rightarrow> string) \<Rightarrow> nat \<Rightarrow> vector list \<Rightarrow> string list \<Rightarrow> nat list
    \<Rightarrow> slots \<Rightarrow> world \<Rightarrow> (error + slots) \<times> world" where
  "storeFetched g md5 idx [] uncachedTexts uncachedIndices vectors s = (Inr vectors, s)"
| "storeFetched g md5 idx (v # rest) uncachedTexts uncachedIndices vectors s =
     (if idx < length uncachedTexts then
        let t = uncachedTexts ! idx;
            s1 = ensureVectorSize v t s;
            s2 = setCacheEntry g (cacheKey md5 t) v s1
        in storeFetched g md5 (Suc idx) rest uncachedTexts uncachedIndices
             (vectors[uncachedIndices ! idx := Some v]) s2
      else (Inl (TypeError ''source text is undefined''), s))"

text \<open>
  The closing \<open>vectors.map\<close> throws on a slot that holds a falsy value. \<open>map\<close> does not
  call its function on a hole, and a filled slot holds an array, which is truthy: the
  result is the slots as they are.
\<close>

definition mapFilled :: "slots \<Rightarrow> error + slots" where
  "mapFilled vectors = Inr vectors"

definition embedTextsChunk :: "generator \<Rightarrow> provider \<Rightarrow> (string \<Rightarrow> string) \<Rightarrow> string list \<Rightarrow> world
    \<Rightarrow> (error + slots) \<times> world" where
  "embedTextsChunk g P md5 texts s =
     (case checkCache md5 0 texts (replicate (length texts) None, [], []) s of
        ((vectors, uncachedTexts, uncachedIndices), s1) \<Rightarrow>
          if uncachedTexts \<noteq> [] then
            (case executeWithRetry (\<lambda>u. callEmbedDocuments P uncachedTexts (enforceRateLimit g u)) 5 s1 of
               (Inl e, s2) \<Rightarrow> (Inl e, s2)
             | (Inr fetched, s2) \<Rightarrow>
                 (case storeFetched g md5 0 fetched uncachedTexts uncachedIndices vectors s2 of
                    (Inl e, s3) \<Rightarrow> (Inl e, s3)
                  | (Inr vectors', s3) \<Rightarrow> (mapFilled vectors', s3)))
          else (mapFilled vectors, s1))"

text \<open>
  \<open>createBatches\<close>: the loop \<open>for (i = 0; i < items.length; i += batchSize)\<close>. With a
  batch size of zero or less the loop never ends; \<open>createBatches\<close> is \<open>None\<close> then.
\<close>

record batch =
  start :: nat
  items :: "string list"

function batchesFrom :: "nat \<Rightarrow> nat \<Rightarrow> string list \<Rightarrow> batch list" where
  "batchesFrom i bsize xs =
     (if i < length xs \<and> 0 < bsize
      then \<lparr> start = i, items = take bsize (drop i xs) \<rparr> # batchesFrom (i + bsize) bsize xs
      else [])"
  by pat_completeness auto
termination
  by (relation "measure (\<lambda>(i, bsize, xs). length xs - i)") auto

declare batchesFrom.simps [simp del]

definition createBatches :: "string list \<Rightarrow> int \<Rightarrow> batch list option" where
  "createBatches xs bsize =
     (if xs \<noteq> [] \<and> bsize \<le> 0 then None else Some (batchesFrom 0 (nat bsize) xs))"

text \<open>
  The worker of \<open>embedBatch\<close> for one batch: embed it, copy the filled slots to their
  places in \<open>results\<close> (\<open>forEach\<close> skips holes), count, and log every fiftieth text of a
  large input.
\<close>

fun copySlots :: "nat \<Rightarrow> slots \<Rightarrow> slots \<Rightarrow> slots" where
  "copySlots pos [] results = results"
| "copySlots pos (None # vs) results = copySlots (Suc pos) vs results"
| "copySlots pos (Some v # vs) results = copySlots (Suc pos) vs (results[pos := Some v])"

definition worker :: "generator \<Rightarrow> provider \<Rightarrow> (string \<Rightarrow> string) \<Rightarrow> nat \<Rightarrow> batch \<Rightarrow> slots \<times> nat
    \<Rightarrow> world \<Rightarrow> (error + slots \<times> nat) \<times> world" where
  "worker g P md5 len b acc s =
     (case embedTextsChunk g P md5 (items b) s of
        (Inl e, s1) \<Rightarrow> (Inl e, s1)
      | (Inr vectors, s1) \<Rightarrow>
          (let results = copySlots (start b) vectors (fst acc);
               processed = snd acc + length (items b);
               s2 = (if len \<ge> 50 \<and> processed mod 50 = 0
                     then emit (Log Info (''Embedded '' @ show_nat processed @ ''/''
                                  @ show_nat len @ '' texts'')) s1
                     else s1)
           in (Inr (results, processed), s2)))"

text \<open>
  \<open>runWithConcurrency\<close> starts \<open>min(maxConcurrency, queue.length)\<close> workers that take
  batches from the front of one queue. The model runs the schedule in which a batch is
  finished before the next one is taken, which is the only schedule when there is one
  batch or one worker; no worker (a concurrency of zero or less) leaves the queue
  untouched. The first failure rejects the whole run. With several workers and several
  batches the code lets each worker look its first batch up in the cache before any
  answer of the provider has arrived, and the order of the answers is the provider's;
  these schedules are outside the model, and the properties below that run
  \<open>embedBatch\<close> to its end do so on one batch.
\<close>

fun drainQueue :: "(batch \<Rightarrow> 'a \<Rightarrow> world \<Rightarrow> (error + 'a) \<times> world) \<Rightarrow> batch list \<Rightarrow> 'a \<Rightarrow> world
    \<Rightarrow> (error + 'a) \<times> world" where
  "drainQueue w [] acc s = (Inr acc, s)"
| "drainQueue w (b # queue) acc s =
     (case w b acc s of
        (Inl e, s1) \<Rightarrow> (Inl e, s1)
      | (Inr acc1, s1) \<Rightarrow> drainQueue w queue acc1 s1)"

definition runWithConcurrency :: "generator \<Rightarrow> batch list
    \<Rightarrow> (batch \<Rightarrow> 'a \<Rightarrow> world \<Rightarrow> (error + 'a) \<times> world) \<Rightarrow> 'a \<Rightarrow> world \<Rightarrow> (error + 'a) \<times> world" where
  "runWithConcurrency g queue w acc s =
     (let concurrency = min (maxConcurrency g) (int (length queue))
      in if concurrency \<le> 0 then (Inr acc, s) else drainQueue w queue acc s)"

text \<open>
  \<open>embedBatch\<close>; the batch size defaults to the generator's. The result is \<open>None\<close> when
  the call never returns. The closing \<open>results.map\<close> behaves as in \<open>embedTextsChunk\<close>.
\<close>

definition embedBatch :: "generator \<Rightarrow> provider \<Rightarrow> (string \<Rightarrow> string) \<Rightarrow> string list \<Rightarrow> int option
    \<Rightarrow> world \<Rightarrow> ((error + slots) \<times> world) option" where
  "embedBatch g P md5 texts bsize s =
     (if texts = [] then Some (Inr [], s)
      else
        (case createBatches texts (case bsize of None \<Rightarrow> batchSize g | Some b \<Rightarrow> b) of
           None \<Rightarrow> None
         | Some batches \<Rightarrow>
             Some (case runWithConcurrency g batches (worker g P md5 (length texts))
                          (replicate (length texts) None, 0) s of
                     (Inl e, s1) \<Rightarrow> (Inl e, s1)
                   | (Inr (results, processed), s1) \<Rightarrow> (mapFilled results, s1))))"

text \<open>The waits recorded in a trace and its provider calls; the state before anything
  has happened; the generator that the constructor makes when no option is given.\<close>

fun sleeps :: "event list \<Rightarrow> int list" where
  "sleeps [] = []"
| "sleeps (Sleep ms # es) = ms # sleeps es"
| "sleeps (_ # es) = sleeps es"

fun isProviderCall :: "event \<Rightarrow> bool" where
  "isProviderCall (EmbedQuery _) = True"
| "isProviderCall (EmbedDocuments _) = True"
| "isProviderCall _ = False"

definition world0 :: world where
  "world0 = \<lparr> now = 0, trace = [], cache = [], requestTimestamps = [], providerCalls = 0,
              storeCalls = 0, points = [] \<rparr>"

definition defaultGenerator :: generator where
  "defaultGenerator = \<lparr> batchSize = DEFAULT_BATCH_SIZE, maxConcurrency = DEFAULT_MAX_CONCURRENCY,
       cacheSize = MAX_CACHE_ENTRIES, rateLimitPerMinute = DEFAULT_RATE_LIMIT_PER_MINUTE \<rparr>"

text \<open>A provider that fails every call; the failure names the number of the call.\<close>

definition failingProvider :: provider where
  "failingProvider = \<lparr> embedQuery = (\<lambda>n t. Inl (Rejected (''failure '' @ show_nat n))),
       embedDocuments = (\<lambda>n ts. Inl (Rejected (''failure '' @ show_nat n))) \<rparr>"

definition failingCall :: "world \<Rightarrow> (error + vector) \<times> world" where
  "failingCall u = callEmbedQuery failingProvider ''x'' u"

text \<open>A provider that answers every text with a vector read off the text itself, and the
  provider calls recorded in a trace.\<close>

definition textVector :: "string \<Rightarrow> vector" where
  "textVector t = map (\<lambda>c. real (of_char c)) t"

definition echoProvider :: provider where
  "echoProvider = \<lparr> embedQuery = (\<lambda>n t. Inr (textVector t)),
       embedDocuments = (\<lambda>n ts. Inr (map textVector ts)) \<rparr>"

definition providerLog :: "world \<Rightarrow> event list" where
  "providerLog s = filter isProviderCall (trace s)"

text \<open>The cache reads recorded in a trace.\<close>

fun isCacheGet :: "event \<Rightarrow> bool" where
  "isCacheGet (CacheGet k) = True"
| "isCacheGet e = False"

definition cacheLog :: "world \<Rightarrow> event list" where
  "cacheLog s = filter isCacheGet (trace s)"

section \<open>Documents and chunks\<close>

text \<open>A \<open>Date\<close> object is valid, with its time in milliseconds, or invalid.\<close>

datatype jsdate = ValidDate int | InvalidDate

definition CATEGORY_KEYS :: "string list" where
  "CATEGORY_KEYS = [''mutual_funds'', ''portfolio_managers'', ''invits'', ''reits'', ''general'']"

text \<open>
  \<open>SEBIDocument\<close> and \<open>SEBIChunk\<close>, the objects the zod schemas describe. The fields
  \<open>id\<close> and \<open>content\<close> of a document are \<open>doc_id\<close> and \<open>doc_content\<close>; the open
  \<open>metadata\<close> record is a list of keys and values. A chunk object may carry a \<open>metadata\<close>
  property that the schema does not know (\<open>chunk_meta\<close>, read by the vector store client).
\<close>

record SEBIDocument =
  doc_id :: string
  circular_id :: string
  doc_title :: string
  date :: jsdate
  category :: string
  doc_chapter :: "string option"
  doc_section :: "string option"
  doc_content :: string
  url :: string
  metadata :: "(string \<times> string) list"

record PayloadDocumentShape =
  pd_id :: "string option"
  pd_circular_id :: "string option"
  pd_title :: "string option"
  pd_date :: "string option"
  pd_category :: "string option"
  pd_chapter :: "string option"
  pd_section :: "string option"
  pd_content :: "string option"
  pd_url :: "string option"
  pd_metadata :: "(string \<times> string) list option"

record ChunkMetadata =
  cm_circular_id :: "string option"
  cm_category :: "string option"
  cm_date :: "string option"
  cm_chapter :: "string option"
  cm_title :: "string option"
  cm_url :: "string option"
  cm_document :: "PayloadDocumentShape option"
  cm_metadata :: "(string \<times> string) list option"

record SEBIChunk =
  chunk_id :: string
  document_id :: string
  chunk_index :: nat
  content :: string
  tokens :: nat
  section_hierarchy :: "string list"
  embedding :: "vector option"
  chunk_meta :: "ChunkMetadata option"

text \<open>
  \<open>SEBIChunkSchema\<close>: \<open>chunk_id\<close> and \<open>document_id\<close> have at least one character,
  \<open>chunk_index\<close> and \<open>tokens\<close> are non-negative integers (they are \<open>nat\<close> here), an
  embedding, when present, has 3072 components. \<open>parse\<close> throws a ZodError naming the
  fields that fail and otherwise returns the fields of the schema, without any other
  property of the object.
\<close>

definition SEBIChunkSchema_issues :: "SEBIChunk \<Rightarrow> string list" where
  "SEBIChunkSchema_issues c =
     (if chunk_id c = [] then [''chunk_id''] else [])
     @ (if document_id c = [] then [''document_id''] else [])
     @ (case embedding c of
          None \<Rightarrow> []
        | Some v \<Rightarrow> if length v = 3072 then [] else [''embedding''])"

definition SEBIChunkSchema_parse :: "SEBIChunk \<Rightarrow> error + SEBIChunk" where
  "SEBIChunkSchema_parse c =
     (if SEBIChunkSchema_issues c = [] then Inr (c\<lparr>chunk_meta := None\<rparr>)
      else Inl (ZodError (concat (map (\<lambda>f. f @ ''; '') (SEBIChunkSchema_issues c)))))"

text \<open>
  \<open>SEBIDocumentSchema\<close>: \<open>id\<close>, \<open>circular_id\<close> and \<open>title\<close> have at least one
  character, the date is a valid date, the category is one of the five categories, the
  url is a URL. What counts as a URL is decided by the URL parser of the platform, the
  parameter \<open>isUrl\<close>.
\<close>

definition SEBIDocumentSchema_issues :: "(string \<Rightarrow> bool) \<Rightarrow> SEBIDocument \<Rightarrow> string list" where
  "SEBIDocumentSchema_issues isUrl d =
     (if doc_id d = [] then [''id''] else [])
     @ (if circular_id d = [] then [''circular_id''] else [])
     @ (if doc_title d = [] then [''title''] else [])
     @ (if date d = InvalidDate then [''date''] else [])
     @ (if category d \<in> set CATEGORY_KEYS then [] else [''category''])
     @ (if isUrl (url d) then [] else [''url''])"

definition SEBIDocumentSchema_parse :: "(string \<Rightarrow> bool) \<Rightarrow> SEBIDocument \<Rightarrow> error + SEBIDocument" where
  "SEBIDocumentSchema_parse isUrl d =
     (if SEBIDocumentSchema_issues isUrl d = [] then Inr d
      else Inl (ZodError (concat (map (\<lambda>f. f @ ''; '') (SEBIDocumentSchema_issues isUrl d)))))"

section \<open>Section extraction\<close>

datatype Section =
  Section (sec_id: string) (sec_title: string) (sec_content: string) (level: nat)
    (children: "Section list")

definition LF :: char where "LF = CHR 0x0A"
definition CR :: char where "CR = CHR 0x0D"

fun join :: "string \<Rightarrow> string list \<Rightarrow> string" where
  "join sep [] = []"
| "join sep [x] = x"
| "join sep (x # y # ys) = x @ sep @ join sep (y # ys)"

text \<open>\<open>text.split('\n')\<close>: the pieces between line feeds, at least one piece.\<close>

fun splitOn :: "char \<Rightarrow> string \<Rightarrow> string list" where
  "splitOn c [] = [[]]"
| "splitOn c (x # xs) =
     (if x = c then [] # splitOn c xs
      else (let r = splitOn c xs in (x # hd r) # tl r))"

definition lower :: "char \<Rightarrow> char" where
  "lower c = (case map_of (zip ''ABCDEFGHIJKLMNOPQRSTUVWXYZ'' ''abcdefghijklmnopqrstuvwxyz'') c of
                None \<Rightarrow> c | Some l \<Rightarrow> l)"

definition isDigit :: "char \<Rightarrow> bool" where
  "isDigit c = (c \<in> set ''0123456789'')"

definition isRoman :: "char \<Rightarrow> bool" where
  "isRoman c = (lower c \<in> set ''ivxlcdm'')"

text \<open>The class \<open>[:\.\s]\<close>, and the characters that \<open>.\<close> matches.\<close>

definition isSep :: "char \<Rightarrow> bool" where
  "isSep c = (c = CHR '':'' \<or> c = CHR ''.'' \<or> isSpace c)"

definition notTerminator :: "char \<Rightarrow> bool" where
  "notTerminator c = (c \<noteq> LF \<and> c \<noteq> CR)"

text \<open>
  The tail \<open>[:\.\s]+(.+)\<close> of the three heading patterns, matched against what follows
  the number: the separators are taken greedily; when nothing is left for \<open>(.+)\<close> the
  separator run gives characters back from its end, keeping at least one, until
  \<open>(.+)\<close> can start. The result is the text captured by \<open>(.+)\<close>.
\<close>

definition sepTitle :: "string \<Rightarrow> string option" where
  "sepTitle r =
     (let sep = takeWhile isSep r; rest = dropWhile isSep r in
      if sep = [] then None
      else if rest \<noteq> [] then Some (takeWhile notTerminator rest)
      else (case filter (\<lambda>j. notTerminator (sep ! j)) (rev [1..<length sep]) of
              [] \<Rightarrow> None
            | j # _ \<Rightarrow> Some (takeWhile notTerminator (drop j sep))))"

text \<open>\<open>/^Chapter\s+(\d+|[IVXLCDM]+)[:\.\s]+(.+)/i\<close>: the number and the title captured.\<close>

definition matchChapter :: "string \<Rightarrow> (string \<times> string) option" where
  "matchChapter l =
     (if map lower (take 7 l) \<noteq> ''chapter'' then None
      else
        let r1 = drop 7 l; r2 = dropWhile isSpace r1 in
        if takeWhile isSpace r1 = [] then None
        else
          let num = (if takeWhile isDigit r2 \<noteq> [] then takeWhile isDigit r2 else takeWhile isRoman r2)
          in if num = [] then None
             else (case sepTitle (drop (length num) r2) of
                     None \<Rightarrow> None
                   | Some t \<Rightarrow> Some (num, t)))"

text \<open>A run of digits, then for each further group a dot and a run of digits: the text
  matched and what follows it.\<close>

fun dotted :: "nat \<Rightarrow> string \<Rightarrow> (string \<times> string) option" where
  "dotted 0 l =
     (let d = takeWhile isDigit l in if d = [] then None else Some (d, dropWhile isDigit l))"
| "dotted (Suc n) l =
     (case dotted n l of
        None \<Rightarrow> None
      | Some (m, r) \<Rightarrow>
          (case r of
             [] \<Rightarrow> None
           | c # r' \<Rightarrow>
               if c = CHR ''.'' \<and> takeWhile isDigit r' \<noteq> []
               then Some (m @ [c] @ takeWhile isDigit r', dropWhile isDigit r')
               else None))"

text \<open>\<open>/^(\d+\.\d+)[:\.\s]+(.+)/\<close>, \<open>/^\d+\.\d+\.\d+/\<close> and
  \<open>/^(\d+\.\d+\.\d+)[:\.\s]+(.+)/\<close>.\<close>

definition matchSection :: "string \<Rightarrow> (string \<times> string) option" where
  "matchSection l =
     (case dotted 1 l of
        None \<Rightarrow> None
      | Some (num, r) \<Rightarrow> (case sepTitle r of None \<Rightarrow> None | Some t \<Rightarrow> Some (num, t)))"

definition startsThreeLevels :: "string \<Rightarrow> bool" where
  "startsThreeLevels l = (dotted 2 l \<noteq> None)"

definition matchSubSection :: "string \<Rightarrow> (string \<times> string) option" where
  "matchSubSection l =
     (case dotted 2 l of
        None \<Rightarrow> None
      | Some (num, r) \<Rightarrow> (case sepTitle r of None \<Rightarrow> None | Some t \<Rightarrow> Some (num, t)))"

text \<open>
  The scan of \<open>extractSections\<close>. \<open>currentChapter\<close>, \<open>currentSection\<close> and
  \<open>currentSubSection\<close> refer to nodes that are already in the forest; they are kept as the
  paths of those nodes (the index among the top-level sections, then among the children).
\<close>

record scan =
  sections :: "Section list"
  currentChapter :: "nat list option"
  currentSection :: "nat list option"
  currentSubSection :: "nat list option"
  contentBuffer :: "string list"

fun modifyAt :: "nat list \<Rightarrow> (Section \<Rightarrow> Section) \<Rightarrow> Section list \<Rightarrow> Section list" where
  "modifyAt [] f secs = secs"
| "modifyAt [i] f secs = secs[i := f (secs ! i)]"
| "modifyAt (i # j # p) f secs =
     secs[i := (case secs ! i of
                  Section a b c d ch \<Rightarrow> Section a b c d (modifyAt (j # p) f ch))]"

fun nodeAt :: "nat list \<Rightarrow> Section list \<Rightarrow> Section option" where
  "nodeAt [] secs = None"
| "nodeAt [i] secs = (if i < length secs then Some (secs ! i) else None)"
| "nodeAt (i # j # p) secs = (if i < length secs then nodeAt (j # p) (children (secs ! i)) else None)"

definition appendContent :: "string \<Rightarrow> Section \<Rightarrow> Section" where
  "appendContent c n =
     (case n of Section a b old d ch \<Rightarrow>
        Section a b (old @ (if old \<noteq> [] then [LF] else []) @ c) d ch)"

definition pushChild :: "Section \<Rightarrow> Section \<Rightarrow> Section" where
  "pushChild child n = (case n of Section a b c d ch \<Rightarrow> Section a b c d (ch @ [child]))"

definition childCount :: "nat list \<Rightarrow> Section list \<Rightarrow> nat" where
  "childCount p secs = (case nodeAt p secs of None \<Rightarrow> 0 | Some n \<Rightarrow> length (children n))"

definition flushContent :: "scan \<Rightarrow> scan" where
  "flushContent st =
     (let c = trim (join [LF] (contentBuffer st)) in
      if c = [] then st
      else
        (case currentSubSection st of
           Some p \<Rightarrow> st\<lparr>sections := modifyAt p (appendContent c) (sections st), contentBuffer := []\<rparr>
         | None \<Rightarrow>
             (case currentSection st of
                Some p \<Rightarrow> st\<lparr>sections := modifyAt p (appendContent c) (sections st), contentBuffer := []\<rparr>
              | None \<Rightarrow>
                  (case currentChapter st of
                     Some p \<Rightarrow>
                       st\<lparr>sections := modifyAt p (appendContent c) (sections st), contentBuffer := []\<rparr>
                   | None \<Rightarrow> st\<lparr>contentBuffer := []\<rparr>))))"

text \<open>Attaching a new node under the node at a path, or at top level; the result is the
  forest and the path of the new node.\<close>

definition attach :: "nat list option \<Rightarrow> Section \<Rightarrow> Section list \<Rightarrow> Section list \<times> nat list" where
  "attach parent n secs =
     (case parent of
        None \<Rightarrow> (secs @ [n], [length secs])
      | Some p \<Rightarrow> (modifyAt p (pushChild n) secs, p @ [childCount p secs]))"

definition scanLine :: "scan \<Rightarrow> string \<Rightarrow> scan" where
  "scanLine st line =
     (let trimmedLine = trim line in
      case matchChapter trimmedLine of
        Some (num, t) \<Rightarrow>
          (let st1 = flushContent st;
               (secs, p) = attach None (Section num (trim t) [] 1 []) (sections st1)
           in st1\<lparr>sections := secs, currentChapter := Some p, currentSection := None,
                  currentSubSection := None\<rparr>)
      | None \<Rightarrow>
          (case (if startsThreeLevels trimmedLine then None else matchSection trimmedLine) of
             Some (num, t) \<Rightarrow>
               (let st1 = flushContent st;
                    (secs, p) = attach (currentChapter st1) (Section num (trim t) [] 2 []) (sections st1)
                in st1\<lparr>sections := secs, currentSection := Some p, currentSubSection := None\<rparr>)
           | None \<Rightarrow>
               (case matchSubSection trimmedLine of
                  Some (num, t) \<Rightarrow>
                    (let st1 = flushContent st;
                         parent = (case currentSection st1 of
                                     Some q \<Rightarrow> Some q
                                   | None \<Rightarrow> currentChapter st1);
                         (secs, p) = attach parent (Section num (trim t) [] 3 []) (sections st1)
                     in st1\<lparr>sections := secs, currentSubSection := Some p\<rparr>)
                | None \<Rightarrow>
                    (if trimmedLine \<noteq> [] then st\<lparr>contentBuffer := contentBuffer st @ [trimmedLine]\<rparr>
                     else st))))"

definition extractSections :: "string \<Rightarrow> Section list" where
  "extractSections t =
     sections (flushContent (foldl scanLine
        \<lparr> sections = [], currentChapter = None, currentSection = None,
          currentSubSection = None, contentBuffer = [] \<rparr> (splitOn LF t)))"

section \<open>Chunking\<close>

text \<open>
  \<open>splitIntoSentences\<close>: \<open>split(/(?<=[.!?])\s+/)\<close> cuts at every run of white space that
  follows a full stop, exclamation mark or question mark; the pieces are trimmed and the
  empty ones dropped.
\<close>

definition isStop :: "char \<Rightarrow> bool" where
  "isStop c = (c = CHR ''.'' \<or> c = CHR ''!'' \<or> c = CHR ''?'')"

function sentencePieces :: "string \<Rightarrow> string \<Rightarrow> string list" where
  "sentencePieces [] cur = [rev cur]"
| "sentencePieces (c # cs) cur =
     (if isStop c \<and> cs \<noteq> [] \<and> isSpace (hd cs)
      then rev (c # cur) # sentencePieces (dropWhile isSpace cs) []
      else sentencePieces cs (c # cur))"
  by pat_completeness auto
termination
  by (relation "measure (\<lambda>(t, cur). length t)") (auto simp add: le_imp_less_Suc length_dropWhile_le)

definition splitIntoSentences :: "string \<Rightarrow> string list" where
  "splitIntoSentences t = filter (\<lambda>p. p \<noteq> []) (map trim (sentencePieces t []))"

text \<open>
  The overlap loop of \<open>splitByTokens\<close>: sentences are taken from the end of the closed
  chunk (first argument: what is left of it, last sentence first) while the tokens
  taken so far are fewer than \<open>overlap\<close>. \<open>countTokens\<close>, the tiktoken count of a text, is
  a parameter throughout.
\<close>

fun overlapLoop :: "(string \<Rightarrow> nat) \<Rightarrow> int \<Rightarrow> string list \<Rightarrow> nat \<Rightarrow> string list \<Rightarrow> string list \<times> nat" where
  "overlapLoop countTokens overlap [] overlapTokens overlapSentences = (overlapSentences, overlapTokens)"
| "overlapLoop countTokens overlap (sent # earlier) overlapTokens overlapSentences =
     (if int overlapTokens < overlap
      then overlapLoop countTokens overlap earlier (overlapTokens + countTokens sent) (sent # overlapSentences)
      else (overlapSentences, overlapTokens))"

text \<open>
  The main loop of \<open>splitByTokens\<close> over the sentences, with \<open>chunks\<close> holding the closed
  chunks as lists of sentences; \<open>splitByTokens\<close> joins each with single spaces, as the
  source does when it closes a chunk.
\<close>

fun splitLoop :: "(string \<Rightarrow> nat) \<Rightarrow> int \<Rightarrow> int \<Rightarrow> string list \<Rightarrow> string list list \<Rightarrow> string list \<Rightarrow> nat
    \<Rightarrow> string list list" where
  "splitLoop countTokens maxTokens overlap [] chunks currentChunk currentTokens =
     (if currentChunk \<noteq> [] then chunks @ [currentChunk] else chunks)"
| "splitLoop countTokens maxTokens overlap (sentence # rest) chunks currentChunk currentTokens =
     (let sentenceTokens = countTokens sentence in
      if int (currentTokens + sentenceTokens) > maxTokens \<and> currentChunk \<noteq> [] then
        (if overlap > 0 then
           (case overlapLoop countTokens overlap (rev currentChunk) 0 [] of
              (overlapSentences, overlapTokens) \<Rightarrow>
                splitLoop countTokens maxTokens overlap rest (chunks @ [currentChunk])
                  (overlapSentences @ [sentence]) (overlapTokens + sentenceTokens))
         else splitLoop countTokens maxTokens overlap rest (chunks @ [currentChunk])
                [sentence] sentenceTokens)
      else splitLoop countTokens maxTokens overlap rest chunks
             (currentChunk @ [sentence]) (currentTokens + sentenceTokens))"

definition splitSentences :: "(string \<Rightarrow> nat) \<Rightarrow> int \<Rightarrow> int \<Rightarrow> string list \<Rightarrow> string list list" where
  "splitSentences countTokens maxTokens overlap sentences =
     splitLoop countTokens maxTokens overlap sentences [] [] 0"

definition splitByTokens :: "(string \<Rightarrow> nat) \<Rightarrow> string \<Rightarrow> int \<Rightarrow> int \<Rightarrow> string list" where
  "splitByTokens countTokens t maxTokens overlap =
     map (join '' '') (splitSentences countTokens maxTokens overlap (splitIntoSentences t))"

record ContentBlock =
  block_content :: string
  hierarchy :: "string list"

fun flattenSections :: "Section list \<Rightarrow> string list \<Rightarrow> ContentBlock list" where
  "flattenSections [] parentPath = []"
| "flattenSections (Section i t c l ch # others) parentPath =
     (let currentPath = parentPath @ [trim (i @ '' '' @ t)] in
      (if c \<noteq> [] then [\<lparr> block_content = c, hierarchy = currentPath \<rparr>] else [])
      @ (if ch \<noteq> [] then flattenSections ch currentPath else []))
     @ flattenSections others parentPath"

record ChunkOptions =
  opt_maxTokens :: "int option"
  opt_minTokens :: "int option"
  opt_overlap :: "int option"

definition newChunk :: "SEBIDocument \<Rightarrow> nat \<Rightarrow> string \<Rightarrow> nat \<Rightarrow> string list \<Rightarrow> SEBIChunk" where
  "newChunk document chunkIndex t n h =
     \<lparr> chunk_id = doc_id document @ ''-chunk-'' @ show_nat chunkIndex,
       document_id = doc_id document,
       chunk_index = chunkIndex,
       content = t,
       tokens = n,
       section_hierarchy = h,
       embedding = None,
       chunk_meta = None \<rparr>"

text \<open>
  The loop over the texts of one split: a text passes \<open>keep\<close> or is skipped; a kept text
  becomes a chunk and takes the next index. \<open>SEBIChunkSchema.parse\<close> may throw.
\<close>

fun pushTexts :: "(string \<Rightarrow> nat) \<Rightarrow> SEBIDocument \<Rightarrow> (nat \<Rightarrow> bool) \<Rightarrow> string list \<Rightarrow> string list
    \<Rightarrow> SEBIChunk list \<times> nat \<Rightarrow> error + SEBIChunk list \<times> nat" where
  "pushTexts countTokens document keep h [] acc = Inr acc"
| "pushTexts countTokens document keep h (t # rest) (chunks, chunkIndex) =
     (let n = countTokens t in
      if keep n then
        (case SEBIChunkSchema_parse (newChunk document chunkIndex t n h) of
           Inl e \<Rightarrow> Inl e
         | Inr c \<Rightarrow> pushTexts countTokens document keep h rest (chunks @ [c], Suc chunkIndex))
      else pushTexts countTokens document keep h rest (chunks, chunkIndex))"

fun chunkBlocks :: "(string \<Rightarrow> nat) \<Rightarrow> SEBIDocument \<Rightarrow> int \<Rightarrow> int \<Rightarrow> int \<Rightarrow> nat \<Rightarrow> ContentBlock list
    \<Rightarrow> SEBIChunk list \<times> nat \<Rightarrow> error + SEBIChunk list \<times> nat" where
  "chunkBlocks countTokens document maxTokens minTokens overlap nblocks [] acc = Inr acc"
| "chunkBlocks countTokens document maxTokens minTokens overlap nblocks (block # rest) (chunks, chunkIndex) =
     (let blockTokens = countTokens (block_content block) in
      if int blockTokens \<le> maxTokens then
        (if int blockTokens \<ge> minTokens \<or> nblocks = 1 then
           (case SEBIChunkSchema_parse
                   (newChunk document chunkIndex (block_content block) blockTokens (hierarchy block)) of
              Inl e \<Rightarrow> Inl e
            | Inr c \<Rightarrow>
                chunkBlocks countTokens document maxTokens minTokens overlap nblocks rest
                  (chunks @ [c], Suc chunkIndex))
         else chunkBlocks countTokens document maxTokens minTokens overlap nblocks rest (chunks, chunkIndex))
      else
        (let textChunks = splitByTokens countTokens (block_content block) maxTokens overlap in
         case pushTexts countTokens document
                (\<lambda>n. int n \<ge> minTokens \<or> length textChunks = 1) (hierarchy block) textChunks
                (chunks, chunkIndex) of
           Inl e \<Rightarrow> Inl e
         | Inr acc \<Rightarrow> chunkBlocks countTokens document maxTokens minTokens overlap nblocks rest acc))"

definition chunkDocument :: "(string \<Rightarrow> nat) \<Rightarrow> SEBIDocument \<Rightarrow> ChunkOptions \<Rightarrow> error + SEBIChunk list" where
  "chunkDocument countTokens document options =
     (let maxTokens = (case opt_maxTokens options of None \<Rightarrow> 512 | Some m \<Rightarrow> m);
          minTokens = (case opt_minTokens options of None \<Rightarrow> 128 | Some m \<Rightarrow> m);
          overlap = (case opt_overlap options of None \<Rightarrow> 50 | Some m \<Rightarrow> m);
          secs = extractSections (doc_content document)
      in if secs = [] then
           (let textChunks = splitByTokens countTokens (doc_content document) maxTokens overlap in
            case pushTexts countTokens document
                   (\<lambda>n. \<not> (int n < minTokens \<and> length textChunks > 1)) [] textChunks ([], 0) of
              Inl e \<Rightarrow> Inl e
            | Inr (chunks, chunkIndex) \<Rightarrow> Inr chunks)
         else
           (let contentBlocks = flattenSections secs [] in
            case chunkBlocks countTokens document maxTokens minTokens overlap (length contentBlocks)
                   contentBlocks ([], 0) of
              Inl e \<Rightarrow> Inl e
            | Inr (chunks, chunkIndex) \<Rightarrow> Inr chunks))"

section \<open>Predicates and sample inputs for the chunker\<close>

text \<open>The sentences that \<open>splitByTokens\<close> carries over when it closes a chunk.\<close>

definition overlapSentences :: "(string \<Rightarrow> nat) \<Rightarrow> int \<Rightarrow> string list \<Rightarrow> string list" where
  "overlapSentences countTokens overlap previous = fst (overlapLoop countTokens overlap (rev previous) 0 [])"

text \<open>
  \<open>seeds previous successor\<close>, for chunks as lists of sentences: for some \<open>n\<close> of at
  least one, the last \<open>n\<close> sentences of the closed chunk start the next chunk, which goes
  on after them; these \<open>n\<close> sentences count at least \<open>overlap\<close> tokens or are the whole
  closed chunk; and without the first of them they count fewer than \<open>overlap\<close> tokens.
  Only one \<open>n\<close> fits: that of the sentences taken from the end until their count reaches
  \<open>overlap\<close> or the chunk is used up.

  \<open>overlaps p n\<close>, for chunks as texts: an end of \<open>p\<close> that is not empty is a start of \<open>n\<close>.
\<close>

definition seeds :: "(string \<Rightarrow> nat) \<Rightarrow> int \<Rightarrow> string list \<Rightarrow> string list \<Rightarrow> bool" where
  "seeds countTokens overlap previous successor =
     list_ex
       (\<lambda>n. let seed = drop (length previous - n) previous in
              take n successor = seed
              \<and> n < length successor
              \<and> (overlap \<le> int (sum_list (map countTokens seed)) \<or> n = length previous)
              \<and> int (sum_list (map countTokens (tl seed))) < overlap)
       [1..<Suc (length previous)]"

definition overlaps :: "string \<Rightarrow> string \<Rightarrow> bool" where
  "overlaps p n =
     list_ex (\<lambda>k. drop (length p - k) p = take k n) [1..<Suc (min (length p) (length n))]"

text \<open>Chunks numbered from zero in order, with ids made of the document id and the
  number; chunks whose token field is the count of their content.\<close>

definition numbered :: "SEBIDocument \<Rightarrow> SEBIChunk list \<Rightarrow> bool" where
  "numbered document chunks =
     (map chunk_index chunks = [0..<length chunks]
      \<and> map chunk_id chunks = map (\<lambda>i. doc_id document @ ''-chunk-'' @ show_nat i) [0..<length chunks])"

definition counted :: "(string \<Rightarrow> nat) \<Rightarrow> SEBIChunk list \<Rightarrow> bool" where
  "counted countTokens chunks = list_all (\<lambda>c. tokens c = countTokens (content c)) chunks"

text \<open>A tokenizer that counts one token per character, a document of two sentences, and
  a document of four sentences with options that make \<open>chunkDocument\<close> drop a chunk.\<close>

definition charCount :: "string \<Rightarrow> nat" where
  "charCount t = length t"

definition tinyDocument :: SEBIDocument where
  "tinyDocument = \<lparr> doc_id = ''d'', circular_id = ''SEBI/HO/IMD/2024/001'', doc_title = ''Two sentences'',
       date = ValidDate 0, category = ''general'', doc_chapter = None, doc_section = None,
       doc_content = ''A. B.'', url = ''https://www.sebi.gov.in/'', metadata = [] \<rparr>"

definition tinyOptions :: ChunkOptions where
  "tinyOptions = \<lparr> opt_maxTokens = Some 3, opt_minTokens = Some 1, opt_overlap = Some 0 \<rparr>"

definition gapDocument :: SEBIDocument where
  "gapDocument = tinyDocument\<lparr>doc_content := ''Aaaa. B. C. Dddd.''\<rparr>"

definition gapOptions :: ChunkOptions where
  "gapOptions = \<lparr> opt_maxTokens = Some 8, opt_minTokens = Some 6, opt_overlap = Some 1 \<rparr>"

section \<open>Vector store client\<close>

definition DEFAULT_UPSERT_BATCH_SIZE :: nat where "DEFAULT_UPSERT_BATCH_SIZE = 100"
definition DEFAULT_COLLECTION :: string where "DEFAULT_COLLECTION = ''sebi_regulations''"

record PayloadShape =
  p_chunk :: "SEBIChunk option"
  p_document :: "PayloadDocumentShape option"
  p_circular_id :: "string option"
  p_category :: "string option"
  p_date :: "string option"
  p_chapter :: "string option"
  p_url :: "string option"
  p_title :: "string option"
  p_metadata :: "(string \<times> string) list option"

record QdrantPoint =
  point_id :: string
  point_vector :: vector
  point_payload :: PayloadShape

record hit =
  hit_id :: string
  hit_score :: "real option"
  hit_payload :: "PayloadShape option"

record SearchResult =
  score :: real
  result_chunk :: SEBIChunk
  result_document :: SEBIDocument

record SearchFilters =
  f_category :: "string option"
  f_dateFrom :: "int option"
  f_dateTo :: "int option"
  f_chapter :: "string option"

datatype rule = Match string string | Range string "int option" "int option"

text \<open>
  The vector store is outside the program. The answer of its client to a call is a
  function of the number of store calls made before it and of the arguments; \<open>None\<close> is
  a call that resolves without a value. \<open>collectionName\<close> is the name of the collection
  that the manager was built for, which every call carries.
\<close>

record client =
  collectionName :: string
  getCollection :: "nat \<Rightarrow> error option"
  createCollection :: "nat \<Rightarrow> error option"
  createPayloadIndex :: "nat \<Rightarrow> string \<Rightarrow> error option"
  upsert :: "nat \<Rightarrow> QdrantPoint list \<Rightarrow> error option"
  search :: "nat \<Rightarrow> vector \<Rightarrow> nat \<Rightarrow> rule list option \<Rightarrow> error + hit list"

definition storeCall :: "event \<Rightarrow> world \<Rightarrow> world" where
  "storeCall e s = emit e (s\<lparr>storeCalls := Suc (storeCalls s)\<rparr>)"

definition collectionExists :: "client \<Rightarrow> world \<Rightarrow> bool \<times> world" where
  "collectionExists C s =
     (case getCollection C (storeCalls s) of
        None \<Rightarrow> (True, storeCall GetCollection s)
      | Some e \<Rightarrow>
          (False, emit (Log Warn (''Collection '' @ collectionName C @ '' not found: ''
                                     @ stringifyError e))
                    (storeCall GetCollection s)))"

text \<open>The four index creations of \<open>initializeCollection\<close> are started one after the other
  and awaited together; the first failure among them rejects the call.\<close>

fun createIndexes :: "client \<Rightarrow> (string \<times> string) list \<Rightarrow> error option \<Rightarrow> world \<Rightarrow> error option \<times> world" where
  "createIndexes C [] failure s = (failure, s)"
| "createIndexes C ((field, schema) # more_fields) failure s =
     (let r = createPayloadIndex C (storeCalls s) field;
          s1 = storeCall (CreatePayloadIndex field schema) s
      in createIndexes C more_fields (case failure of None \<Rightarrow> r | Some e \<Rightarrow> Some e) s1)"

definition initializeCollection :: "client \<Rightarrow> world \<Rightarrow> (error + unit) \<times> world" where
  "initializeCollection C s =
     (case collectionExists C s of
        (True, s1) \<Rightarrow> (Inr (), s1)
      | (False, s1) \<Rightarrow>
          (case createCollection C (storeCalls s1) of
             Some e \<Rightarrow> (Inl e, storeCall CreateCollection s1)
           | None \<Rightarrow>
               (case createIndexes C
                       [(''circular_id'', ''keyword''), (''category'', ''keyword''),
                        (''chapter'', ''keyword''), (''date'', ''datetime'')]
                       None (storeCall CreateCollection s1) of
                  (Some e, s2) \<Rightarrow> (Inl e, s2)
                | (None, s2) \<Rightarrow> (Inr (), s2))))"

text \<open>
  \<open>retry\<close>: up to \<open>attempts\<close> runs of the operation, with a wait of \<open>100 * attempt\<close>
  milliseconds after each failure; then the last error is thrown.
\<close>

definition storeBackoff :: "nat \<Rightarrow> nat \<Rightarrow> error \<Rightarrow> world \<Rightarrow> world" where
  "storeBackoff attempt attempts e s =
     delay (100 * int attempt)
       (emit (Log Warn (''Qdrant operation failed (attempt '' @ show_nat attempt @ ''/''
                @ show_nat attempts @ ''): '' @ stringifyError e)) s)"

fun storeRetryLoop :: "nat \<Rightarrow> nat \<Rightarrow> nat \<Rightarrow> (world \<Rightarrow> (error + 'a) \<times> world) \<Rightarrow> error option \<Rightarrow> world
    \<Rightarrow> (error + 'a) \<times> world" where
  "storeRetryLoop 0 attempt attempts operation lastError s =
     (Inl (case lastError of None \<Rightarrow> UndefinedThrown | Some e \<Rightarrow> e), s)"
| "storeRetryLoop (Suc left) attempt attempts operation lastError s =
     (case operation s of
        (Inr v, s') \<Rightarrow> (Inr v, s')
      | (Inl e, s') \<Rightarrow>
          storeRetryLoop left (Suc attempt) attempts operation (Some e) (storeBackoff attempt attempts e s'))"

definition retry :: "(world \<Rightarrow> (error + 'a) \<times> world) \<Rightarrow> nat \<Rightarrow> world \<Rightarrow> (error + 'a) \<times> world" where
  "retry operation attempts s = storeRetryLoop attempts 1 attempts operation None s"

text \<open>
  \<open>buildPayload\<close>. \<open>toISO\<close> is \<open>new Date(d).toISOString()\<close>: the ISO text of a date, or
  \<open>None\<close> when the date is invalid and \<open>toISOString\<close> throws a RangeError. An empty date
  string is falsy and is left out.
\<close>

definition isoOf :: "(string \<Rightarrow> string option) \<Rightarrow> string option \<Rightarrow> error + string option" where
  "isoOf toISO d =
     (case d of
        None \<Rightarrow> Inr None
      | Some t \<Rightarrow>
          if t = [] then Inr None
          else (case toISO t of
                  None \<Rightarrow> Inl (RangeError ''Invalid time value'')
                | Some isoText \<Rightarrow> Inr (Some isoText)))"

definition extractChunkMetadata :: "SEBIChunk \<Rightarrow> ChunkMetadata" where
  "extractChunkMetadata c =
     (case chunk_meta c of
        Some m \<Rightarrow> m
      | None \<Rightarrow> \<lparr> cm_circular_id = None, cm_category = None, cm_date = None, cm_chapter = None,
                  cm_title = None, cm_url = None, cm_document = None, cm_metadata = None \<rparr>)"

definition normalizeDocumentPayload :: "(string \<Rightarrow> string option) \<Rightarrow> PayloadDocumentShape option
    \<Rightarrow> error + PayloadDocumentShape option" where
  "normalizeDocumentPayload toISO document =
     (case document of
        None \<Rightarrow> Inr None
      | Some d \<Rightarrow>
          (case isoOf toISO (pd_date d) of
             Inl e \<Rightarrow> Inl e
           | Inr isoText \<Rightarrow> Inr (Some (d\<lparr>pd_date := isoText\<rparr>))))"

definition buildPayload :: "(string \<Rightarrow> string option) \<Rightarrow> SEBIChunk \<Rightarrow> error + PayloadShape" where
  "buildPayload toISO c =
     (let meta = extractChunkMetadata c;
          chapter = (case cm_chapter meta of
                       Some ch \<Rightarrow> Some ch
                     | None \<Rightarrow> (case section_hierarchy c of [] \<Rightarrow> None | h # _ \<Rightarrow> Some h))
      in case isoOf toISO (cm_date meta) of
           Inl e \<Rightarrow> Inl e
         | Inr dateValue \<Rightarrow>
             (case normalizeDocumentPayload toISO (cm_document meta) of
                Inl e \<Rightarrow> Inl e
              | Inr document \<Rightarrow>
                  Inr \<lparr> p_chunk = Some c,
                        p_document = document,
                        p_circular_id = Some (case cm_circular_id meta of
                                               None \<Rightarrow> document_id c | Some x \<Rightarrow> x),
                        p_category = Some (case cm_category meta of None \<Rightarrow> ''general'' | Some x \<Rightarrow> x),
                        p_date = dateValue,
                        p_chapter = chapter,
                        p_url = cm_url meta,
                        p_title = cm_title meta,
                        p_metadata = Some (case cm_metadata meta of None \<Rightarrow> [] | Some x \<Rightarrow> x) \<rparr>))"

text \<open>The points of one batch: \<open>chunkBatch.map\<close>, which stops at the first payload that
  cannot be built. \<open>embeddingBatch[index]\<close> is read at an index that exists, the two
  lists being equally long.\<close>

fun buildPoints :: "(string \<Rightarrow> string option) \<Rightarrow> SEBIChunk list \<Rightarrow> vector list \<Rightarrow> error + QdrantPoint list" where
  "buildPoints toISO [] embeddingBatch = Inr []"
| "buildPoints toISO (c # cs) embeddingBatch =
     (case buildPayload toISO c of
        Inl e \<Rightarrow> Inl e
      | Inr payload \<Rightarrow>
          (case buildPoints toISO cs (tl embeddingBatch) of
             Inl e \<Rightarrow> Inl e
           | Inr ps \<Rightarrow>
               Inr (\<lparr> point_id = chunk_id c,
                      point_vector = (case embeddingBatch of [] \<Rightarrow> [] | v # _ \<Rightarrow> v),
                      point_payload = payload \<rparr> # ps)))"

text \<open>One \<open>client.upsert\<close> call: the store keeps the ids of the points it acknowledged.\<close>

definition upsertBatch :: "client \<Rightarrow> (string \<Rightarrow> string option) \<Rightarrow> SEBIChunk list \<Rightarrow> vector list \<Rightarrow> world
    \<Rightarrow> (error + unit) \<times> world" where
  "upsertBatch C toISO chunkBatch embeddingBatch s =
     (case buildPoints toISO chunkBatch embeddingBatch of
        Inl e \<Rightarrow> (Inl e, s)
      | Inr ps \<Rightarrow>
          (case upsert C (storeCalls s) ps of
             Some e \<Rightarrow> (Inl e, storeCall (Upsert (map point_id ps)) s)
           | None \<Rightarrow>
               (Inr (), (storeCall (Upsert (map point_id ps)) s)
                          \<lparr>points := filter (\<lambda>p. p \<notin> set (map point_id ps)) (points s)
                                      @ remdups (map point_id ps)\<rparr>)))"

text \<open>The loop \<open>for (i = 0; i < chunks.length; i += DEFAULT_BATCH_SIZE)\<close> of
  \<open>upsertChunks\<close>, on what is left of the two lists.\<close>

function upsertLoop :: "client \<Rightarrow> (string \<Rightarrow> string option) \<Rightarrow> SEBIChunk list \<Rightarrow> vector list \<Rightarrow> nat \<Rightarrow> world
    \<Rightarrow> (error + nat) \<times> world" where
  "upsertLoop C toISO chunks embeddings success s =
     (if chunks = [] then (Inr success, s)
      else
        (let chunkBatch = take DEFAULT_UPSERT_BATCH_SIZE chunks;
             embeddingBatch = take DEFAULT_UPSERT_BATCH_SIZE embeddings
         in case retry (upsertBatch C toISO chunkBatch embeddingBatch) 3 s of
              (Inl e, s1) \<Rightarrow> (Inl e, s1)
            | (Inr u, s1) \<Rightarrow>
                upsertLoop C toISO (drop DEFAULT_UPSERT_BATCH_SIZE chunks)
                  (drop DEFAULT_UPSERT_BATCH_SIZE embeddings) (success + length chunkBatch) s1))"
  by pat_completeness auto
termination
  by (relation "measure (\<lambda>(C, toISO, chunks, embeddings, success, s). length chunks)")
     (auto simp add: DEFAULT_UPSERT_BATCH_SIZE_def)

declare upsertLoop.simps [simp del]

definition upsertChunks :: "client \<Rightarrow> (string \<Rightarrow> string option) \<Rightarrow> SEBIChunk list \<Rightarrow> vector list \<Rightarrow> world
    \<Rightarrow> (error + nat) \<times> world" where
  "upsertChunks C toISO chunks embeddings s =
     (if length chunks \<noteq> length embeddings
      then (Inl (Error ''Chunks and embeddings length mismatch''), s)
      else upsertLoop C toISO chunks embeddings 0 s)"

definition buildFilter :: "SearchFilters option \<Rightarrow> rule list option" where
  "buildFilter filters =
     (case filters of
        None \<Rightarrow> None
      | Some f \<Rightarrow>
          (let must =
                 (case f_category f of
                    None \<Rightarrow> [] | Some c \<Rightarrow> if c = [] then [] else [Match ''category'' c])
                 @ (case f_chapter f of
                      None \<Rightarrow> [] | Some c \<Rightarrow> if c = [] then [] else [Match ''chapter'' c])
                 @ (if f_dateFrom f \<noteq> None \<or> f_dateTo f \<noteq> None
                    then [Range ''date'' (f_dateFrom f) (f_dateTo f)] else [])
           in if must = [] then None else Some must))"

text \<open>
  Result reconstruction. \<open>parseDate\<close> is \<open>new Date(text)\<close>. \<open>payloadToDocument\<close> ends with
  \<open>SEBIDocumentSchema.parse\<close>, which throws; \<open>mapHitToResult\<close> reads the chunk with
  \<open>safeParse\<close>, logs a failure and returns \<open>null\<close> (\<open>None\<close>).
\<close>

definition orElse :: "'a option \<Rightarrow> 'a option \<Rightarrow> 'a option" where
  "orElse a b = (case a of None \<Rightarrow> b | Some x \<Rightarrow> Some x)"

definition payloadToDocument :: "(string \<Rightarrow> bool) \<Rightarrow> (string \<Rightarrow> jsdate) \<Rightarrow> PayloadShape \<Rightarrow> SEBIChunk \<Rightarrow> world
    \<Rightarrow> error + SEBIDocument" where
  "payloadToDocument isUrl parseDate payload c s =
     (let raw = (case p_document payload of
                   Some d \<Rightarrow> d
                 | None \<Rightarrow> \<lparr> pd_id = None, pd_circular_id = None, pd_title = None, pd_date = None,
                             pd_category = None, pd_chapter = None, pd_section = None,
                             pd_content = None, pd_url = None, pd_metadata = None \<rparr>);
          parsedDate = (case orElse (pd_date raw) (p_date payload) of
                          None \<Rightarrow> ValidDate (now s)
                        | Some t \<Rightarrow> parseDate t);
          safeDate = (if parsedDate = InvalidDate then ValidDate (now s) else parsedDate);
          docCandidate =
            \<lparr> doc_id = (case pd_id raw of None \<Rightarrow> document_id c | Some x \<Rightarrow> x),
              circular_id = (case orElse (pd_circular_id raw) (p_circular_id payload) of
                               None \<Rightarrow> document_id c | Some x \<Rightarrow> x),
              doc_title = (case orElse (pd_title raw) (p_title payload) of
                             None \<Rightarrow> ''SEBI Circular '' @ document_id c | Some x \<Rightarrow> x),
              date = safeDate,
              category = (case orElse (pd_category raw) (p_category payload) of
                            None \<Rightarrow> ''general'' | Some x \<Rightarrow> x),
              doc_chapter = orElse (orElse (pd_chapter raw) (p_chapter payload))
                              (case section_hierarchy c of [] \<Rightarrow> None | h # _ \<Rightarrow> Some h),
              doc_section = orElse (pd_section raw)
                              (case section_hierarchy c of [] \<Rightarrow> None | h # t \<Rightarrow> Some (last (h # t))),
              doc_content = (case pd_content raw of None \<Rightarrow> content c | Some x \<Rightarrow> x),
              url = (case orElse (pd_url raw) (p_url payload) of None \<Rightarrow> [] | Some x \<Rightarrow> x),
              metadata = (case orElse (pd_metadata raw) (p_metadata payload) of
                            None \<Rightarrow> [] | Some x \<Rightarrow> x) \<rparr>
      in SEBIDocumentSchema_parse isUrl docCandidate)"

definition mapHitToResult :: "(string \<Rightarrow> bool) \<Rightarrow> (string \<Rightarrow> jsdate) \<Rightarrow> hit \<Rightarrow> world
    \<Rightarrow> (error + SearchResult option) \<times> world" where
  "mapHitToResult isUrl parseDate h s =
     (case hit_payload h of
        None \<Rightarrow> (Inr None, s)
      | Some payload \<Rightarrow>
          (case p_chunk payload of
             None \<Rightarrow> (Inr None, s)
           | Some raw \<Rightarrow>
               (case SEBIChunkSchema_parse raw of
                  Inl e \<Rightarrow> (Inr None, emit (Log Warn (''Failed to parse chunk payload '' @ stringifyError e)) s)
                | Inr c \<Rightarrow>
                    (case payloadToDocument isUrl parseDate payload c s of
                       Inl e \<Rightarrow> (Inl e, s)
                     | Inr document \<Rightarrow>
                         (Inr (Some \<lparr> score = (case hit_score h of None \<Rightarrow> 0 | Some x \<Rightarrow> x),
                                      result_chunk = c,
                                      result_document = document \<rparr>), s)))))"

text \<open>\<open>hits.map(mapHitToResult).filter(Boolean)\<close>: the hits are mapped in order, a throw
  ends the mapping, the \<open>null\<close> results are dropped.\<close>

fun mapHits :: "(string \<Rightarrow> bool) \<Rightarrow> (string \<Rightarrow> jsdate) \<Rightarrow> hit list \<Rightarrow> world
    \<Rightarrow> (error + SearchResult list) \<times> world" where
  "mapHits isUrl parseDate [] s = (Inr [], s)"
| "mapHits isUrl parseDate (h # hs) s =
     (case mapHitToResult isUrl parseDate h s of
        (Inl e, s1) \<Rightarrow> (Inl e, s1)
      | (Inr r, s1) \<Rightarrow>
          (case mapHits isUrl parseDate hs s1 of
             (Inl e, s2) \<Rightarrow> (Inl e, s2)
           | (Inr rs, s2) \<Rightarrow> (Inr ((case r of None \<Rightarrow> [] | Some x \<Rightarrow> [x]) @ rs), s2)))"

definition semanticSearch :: "client \<Rightarrow> (string \<Rightarrow> bool) \<Rightarrow> (string \<Rightarrow> jsdate) \<Rightarrow> vector \<Rightarrow> SearchFilters option
    \<Rightarrow> nat \<Rightarrow> world \<Rightarrow> (error + SearchResult list) \<times> world" where
  "semanticSearch C isUrl parseDate v filters limit s =
     (case search C (storeCalls s) v limit (buildFilter filters) of
        Inl e \<Rightarrow> (Inl e, storeCall (Search limit) s)
      | Inr hits \<Rightarrow> mapHits isUrl parseDate hits (storeCall (Search limit) s))"










section \<open>Sample store contents\<close>

text \<open>A client that accepts every call and answers a search with the first hits of a
  fixed list; a chunk as \<open>chunkDocument\<close> makes them; a hit whose payload names a category
  outside the enumeration; the hit that the store holds for the chunk after
  \<open>upsertChunks\<close> wrote it; and a URL test that accepts the texts starting with
  \<open>https://\<close>.\<close>

definition acceptingClient :: "hit list \<Rightarrow> client" where
  "acceptingClient hits =
     \<lparr> collectionName = DEFAULT_COLLECTION,
       getCollection = (\<lambda>n. None), createCollection = (\<lambda>n. None),
       createPayloadIndex = (\<lambda>n field. None), upsert = (\<lambda>n ps. None),
       search = (\<lambda>n v limit filter. Inr (take limit hits)) \<rparr>"

definition storedChunk :: SEBIChunk where
  "storedChunk = \<lparr> chunk_id = ''doc-1-chunk-0'', document_id = ''doc-1'', chunk_index = 0,
       content = ''TER limits for equity schemes'', tokens = 5, section_hierarchy = [''1 Introduction''],
       embedding = None, chunk_meta = None \<rparr>"

definition bogusHit :: hit where
  "bogusHit = \<lparr> hit_id = ''doc-1-chunk-0'', hit_score = Some 0.875,
       hit_payload = Some \<lparr> p_chunk = Some storedChunk, p_document = None,
         p_circular_id = Some ''SEBI/HO/IMD/2024/001'', p_category = Some ''equity'',
         p_date = None, p_chapter = None, p_url = Some ''https://www.sebi.gov.in/circular'',
         p_title = Some ''Sample Circular'', p_metadata = Some [] \<rparr> \<rparr>"

definition writtenHit :: hit where
  "writtenHit = \<lparr> hit_id = chunk_id storedChunk, hit_score = Some 0.875,
       hit_payload = (case buildPayload Some storedChunk of Inl e \<Rightarrow> None | Inr p \<Rightarrow> Some p) \<rparr>"

definition httpsUrl :: "string \<Rightarrow> bool" where
  "httpsUrl u = (take 8 u = ''https://'')"








section \<open>Corpus ingestion\<close>

text \<open>
  \<open>embedChunks\<close> of the embedding generator: the contents are embedded as one batch with
  the generator's batch size; every chunk is parsed again with its slot of the result as
  embedding (a hole reads as \<open>undefined\<close>, which the schema allows).
\<close>

fun attachEmbeddings :: "SEBIChunk list \<Rightarrow> slots \<Rightarrow> error + SEBIChunk list" where
  "attachEmbeddings [] embeddings = Inr []"
| "attachEmbeddings (c # cs) embeddings =
     (case SEBIChunkSchema_parse (c\<lparr>embedding := (case embeddings of [] \<Rightarrow> None | e # _ \<Rightarrow> e)\<rparr>) of
        Inl e \<Rightarrow> Inl e
      | Inr enriched \<Rightarrow>
          (case attachEmbeddings cs (tl embeddings) of
             Inl e \<Rightarrow> Inl e
           | Inr rest \<Rightarrow> Inr (enriched # rest)))"

definition embedChunks :: "generator \<Rightarrow> provider \<Rightarrow> (string \<Rightarrow> string) \<Rightarrow> SEBIChunk list \<Rightarrow> world
    \<Rightarrow> ((error + SEBIChunk list) \<times> world) option" where
  "embedChunks g P md5 chunks s =
     (if chunks = [] then Some (Inr [], s)
      else
        (case embedBatch g P md5 (map content chunks) None s of
           None \<Rightarrow> None
         | Some (Inl e, s1) \<Rightarrow> Some (Inl e, s1)
         | Some (Inr embeddings, s1) \<Rightarrow> Some (attachEmbeddings chunks embeddings, s1)))"

text \<open>
  What the ingestion reads from the platform: the path functions of node:path, the
  working directory, the file system and the PDF parser handed to the constructor.
\<close>

record platform =
  isAbsolute :: "string \<Rightarrow> bool"
  pathResolve :: "string \<Rightarrow> string \<Rightarrow> string"
  cwd :: string
  readFile :: "string \<Rightarrow> error + string"
  parser :: "string \<Rightarrow> error + SEBIDocument"

record IngestionConfig =
  sourcePath :: "string option"
  chunkOptions :: "ChunkOptions option"

record IngestionSummary =
  pdfPath :: string
  circularId :: string
  chunkCount :: nat
  embeddingCount :: nat
  durationMs :: int

text \<open>\<open>Partial<SEBIDocument>\<close>: every field may be missing. (A field that is present
  with the value \<open>undefined\<close> is not told apart from a missing one.)\<close>

record PartialDocument =
  o_id :: "string option"
  o_circular_id :: "string option"
  o_title :: "string option"
  o_date :: "jsdate option"
  o_category :: "string option"
  o_chapter :: "string option"
  o_section :: "string option"
  o_content :: "string option"
  o_url :: "string option"
  o_metadata :: "(string \<times> string) list option"

definition partialOf :: "SEBIDocument \<Rightarrow> PartialDocument" where
  "partialOf d =
     \<lparr> o_id = Some (doc_id d), o_circular_id = Some (circular_id d), o_title = Some (doc_title d),
       o_date = Some (date d), o_category = Some (category d), o_chapter = doc_chapter d,
       o_section = doc_section d, o_content = Some (doc_content d), o_url = Some (url d),
       o_metadata = Some (metadata d) \<rparr>"

definition validateMetadata :: "PartialDocument option \<Rightarrow> error + unit" where
  "validateMetadata m =
     (case m of
        None \<Rightarrow> Inl (Error ''Document metadata is required'')
      | Some d \<Rightarrow>
          if o_circular_id d = None \<or> o_circular_id d = Some [] then
            Inl (Error ''Missing circular_id in metadata'')
          else if o_date d = None then Inl (Error ''Missing date in metadata'')
          else
            (case o_category d of
               None \<Rightarrow> Inl (Error ''Missing category in metadata'')
             | Some c \<Rightarrow>
                 if c = [] then Inl (Error ''Missing category in metadata'')
                 else if c \<notin> set CATEGORY_KEYS then Inl (Error (''Invalid category: '' @ c))
                 else Inr ()))"

definition mergeMetadata :: "(string \<Rightarrow> bool) \<Rightarrow> SEBIDocument \<Rightarrow> PartialDocument option
    \<Rightarrow> error + SEBIDocument" where
  "mergeMetadata isUrl d overrides =
     (case overrides of
        None \<Rightarrow> SEBIDocumentSchema_parse isUrl d
      | Some v \<Rightarrow>
          SEBIDocumentSchema_parse isUrl
            \<lparr> doc_id = (case o_id v of None \<Rightarrow> doc_id d | Some x \<Rightarrow> x),
              circular_id = (case o_circular_id v of None \<Rightarrow> circular_id d | Some x \<Rightarrow> x),
              doc_title = (case o_title v of None \<Rightarrow> doc_title d | Some x \<Rightarrow> x),
              date = (case o_date v of None \<Rightarrow> date d | Some x \<Rightarrow> x),
              category = (case o_category v of None \<Rightarrow> category d | Some x \<Rightarrow> x),
              doc_chapter = orElse (o_chapter v) (doc_chapter d),
              doc_section = orElse (o_section v) (doc_section d),
              doc_content = (case o_content v of None \<Rightarrow> doc_content d | Some x \<Rightarrow> x),
              url = (case o_url v of None \<Rightarrow> url d | Some x \<Rightarrow> x),
              metadata = (case o_metadata v of
                            None \<Rightarrow> metadata d
                          | Some om \<Rightarrow> filter (\<lambda>kv. fst kv \<notin> fst ` set om) (metadata d) @ om) \<rparr>)"

definition resolvePath :: "platform \<Rightarrow> IngestionConfig \<Rightarrow> string \<Rightarrow> string" where
  "resolvePath F cfg inputPath =
     (if isAbsolute F inputPath then inputPath
      else (case sourcePath cfg of
              Some base \<Rightarrow> if base \<noteq> [] then pathResolve F base inputPath
                           else pathResolve F (cwd F) inputPath
            | None \<Rightarrow> pathResolve F (cwd F) inputPath))"

definition DEFAULT_CHUNK_OPTIONS :: ChunkOptions where
  "DEFAULT_CHUNK_OPTIONS = \<lparr> opt_maxTokens = Some 512, opt_minTokens = Some 128, opt_overlap = Some 50 \<rparr>"

definition chunkOptionsOf :: "IngestionConfig \<Rightarrow> ChunkOptions" where
  "chunkOptionsOf cfg =
     (case chunkOptions cfg of
        None \<Rightarrow> DEFAULT_CHUNK_OPTIONS
      | Some c \<Rightarrow>
          \<lparr> opt_maxTokens = orElse (opt_maxTokens c) (opt_maxTokens DEFAULT_CHUNK_OPTIONS),
            opt_minTokens = orElse (opt_minTokens c) (opt_minTokens DEFAULT_CHUNK_OPTIONS),
            opt_overlap = orElse (opt_overlap c) (opt_overlap DEFAULT_CHUNK_OPTIONS) \<rparr>)"

text \<open>The embeddings read back from the embedded chunks; a chunk without one is an error.\<close>

fun collectEmbeddings :: "SEBIChunk list \<Rightarrow> error + vector list" where
  "collectEmbeddings [] = Inr []"
| "collectEmbeddings (c # cs) =
     (case embedding c of
        None \<Rightarrow> Inl (Error (''Missing embedding for chunk '' @ chunk_id c))
      | Some v \<Rightarrow> (case collectEmbeddings cs of Inl e \<Rightarrow> Inl e | Inr vs \<Rightarrow> Inr (v # vs)))"

text \<open>
  \<open>ingestPDF\<close>, statement by statement. The steps after the metadata check are
  \<open>ingestChunks\<close>. The result is \<open>None\<close> when the call never returns (a batch size of zero
  or less in the generator).
\<close>

definition ingestChunks :: "generator \<Rightarrow> provider \<Rightarrow> (string \<Rightarrow> string) \<Rightarrow> client \<Rightarrow> (string \<Rightarrow> string option)
    \<Rightarrow> (string \<Rightarrow> nat) \<Rightarrow> IngestionConfig \<Rightarrow> string \<Rightarrow> int \<Rightarrow> SEBIDocument \<Rightarrow> world
    \<Rightarrow> ((error + IngestionSummary) \<times> world) option" where
  "ingestChunks g P md5 C toISO countTokens cfg absolutePath started merged s =
     (case chunkDocument countTokens merged (chunkOptionsOf cfg) of
        Inl e \<Rightarrow> Some (Inl e, s)
      | Inr chunks \<Rightarrow>
          if chunks = [] then Some (Inl (Error (''No chunks produced for '' @ circular_id merged)), s)
          else
            (case embedChunks g P md5 chunks
                    (emit (Log Info (''Chunked document into '' @ show_nat (length chunks) @ '' chunks'')) s) of
               None \<Rightarrow> None
             | Some (Inl e, s1) \<Rightarrow> Some (Inl e, s1)
             | Some (Inr embeddedChunks, s1) \<Rightarrow>
                 (case collectEmbeddings embeddedChunks of
                    Inl e \<Rightarrow> Some (Inl e, s1)
                  | Inr embeddings \<Rightarrow>
                      (case upsertChunks C toISO embeddedChunks embeddings s1 of
                         (Inl e, s2) \<Rightarrow> Some (Inl e, s2)
                       | (Inr upserted, s2) \<Rightarrow>
                           Some (Inr \<lparr> pdfPath = absolutePath,
                                       circularId = circular_id merged,
                                       chunkCount = length embeddedChunks,
                                       embeddingCount = upserted,
                                       durationMs = now s2 - started \<rparr>,
                                 emit (Log Info (''Ingested '' @ circular_id merged @ '' (''
                                         @ show_nat (length embeddedChunks) @ '' chunks)'')) s2)))))"

definition ingestPDF :: "generator \<Rightarrow> provider \<Rightarrow> (string \<Rightarrow> string) \<Rightarrow> client \<Rightarrow> (string \<Rightarrow> string option)
    \<Rightarrow> (string \<Rightarrow> bool) \<Rightarrow> (string \<Rightarrow> nat) \<Rightarrow> platform \<Rightarrow> IngestionConfig \<Rightarrow> string
    \<Rightarrow> PartialDocument option \<Rightarrow> world \<Rightarrow> ((error + IngestionSummary) \<times> world) option" where
  "ingestPDF g P md5 C toISO isUrl countTokens F cfg inputPath overrides s =
     (let absolutePath = resolvePath F cfg inputPath in
      case initializeCollection C s of
        (Inl e, s1) \<Rightarrow> Some (Inl e, s1)
      | (Inr u, s1) \<Rightarrow>
          (let started = now s1;
               s2 = emit (ReadFile absolutePath) (emit (Log Info (''Ingesting PDF: '' @ absolutePath)) s1)
           in case readFile F absolutePath of
                Inl e \<Rightarrow> Some (Inl e, s2)
              | Inr buffer \<Rightarrow>
                  (case parser F buffer of
                     Inl e \<Rightarrow> Some (Inl e, emit ParsePdf s2)
                   | Inr document \<Rightarrow>
                       (case mergeMetadata isUrl document overrides of
                          Inl e \<Rightarrow> Some (Inl e, emit ParsePdf s2)
                        | Inr merged \<Rightarrow>
                            (case validateMetadata (Some (partialOf merged)) of
                               Inl e \<Rightarrow> Some (Inl e, emit ParsePdf s2)
                             | Inr v \<Rightarrow>
                                 ingestChunks g P md5 C toISO countTokens cfg absolutePath started
                                   merged (emit ParsePdf s2))))))"

text \<open>The calls to the vector store and the upserts recorded in a trace; a platform with
  one file, whose parser reads a document with a category outside the enumeration.\<close>

fun isStoreCall :: "event \<Rightarrow> bool" where
  "isStoreCall GetCollection = True"
| "isStoreCall CreateCollection = True"
| "isStoreCall (CreatePayloadIndex f k) = True"
| "isStoreCall (Upsert ids) = True"
| "isStoreCall (Search n) = True"
| "isStoreCall e = False"

fun isUpsert :: "event \<Rightarrow> bool" where
  "isUpsert (Upsert ids) = True"
| "isUpsert e = False"

definition storeLog :: "world \<Rightarrow> event list" where
  "storeLog s = filter isStoreCall (trace s)"

definition upsertLog :: "world \<Rightarrow> event list" where
  "upsertLog s = filter isUpsert (trace s)"

definition equityDocument :: SEBIDocument where
  "equityDocument = tinyDocument\<lparr>category := ''equity''\<rparr>"

definition onePdf :: platform where
  "onePdf = \<lparr> isAbsolute = (\<lambda>p. take 1 p = ''/''), pathResolve = (\<lambda>base p. base @ ''/'' @ p),
       cwd = ''/corpus'', readFile = (\<lambda>p. Inr ''%PDF''), parser = (\<lambda>b. Inr equityDocument) \<rparr>"

definition plainConfig :: IngestionConfig where
  "plainConfig = \<lparr> sourcePath = None, chunkOptions = None \<rparr>"

section \<open>Properties\<close>

subsection \<open>Auxiliary facts\<close>

lemma show_nat_code [code]:
  "show_nat n = (if n < 10 then [digit n] else show_nat (n div 10) @ [digit (n mod 10)])"
  by simp

lemma EmbeddingGenerator_defaults:
  "EmbeddingGenerator ''sk-key''
     \<lparr> opt_batchSize = None, opt_maxConcurrency = None, opt_rateLimitPerMinute = None \<rparr>
   = Inr defaultGenerator"
  by (simp add: EmbeddingGenerator_def defaultGenerator_def)

lemma retryLoop_success:
  "fst (fn s) = Inr v \<Longrightarrow> retryLoop (Suc left) attempt fn lastError s = fn s"
  by (cases "fn s") auto

lemma sleeps_append: "sleeps (xs @ ys) = sleeps xs @ sleeps ys"
  by (induction xs rule: sleeps.induct) auto

lemma sleeps_backoff: "sleeps (trace (backoff a e u)) = sleeps (trace u) @ [2 ^ a * 100]"
proof -
  have "\<not> (2::int) ^ a * 100 \<le> 0" by (simp add: not_le)
  then show ?thesis
    by (simp add: backoff_def delay_def emit_def sleeps_append Let_def)
qed

lemma providerCalls_backoff [simp]: "providerCalls (backoff a e u) = providerCalls u"
  by (simp add: backoff_def delay_def emit_def Let_def)

lemma providerCalls_emit [simp]: "providerCalls (emit ev u) = providerCalls u"
  by (simp add: emit_def)

lemma trace_emit [simp]: "trace (emit ev u) = trace u @ [ev]"
  by (simp add: emit_def)

lemma cache_emit [simp]: "cache (emit ev u) = cache u"
  by (simp add: emit_def)

lemma retryLoop_five_failures:
  assumes "fn s = (Inl e1, s1)"
      and "fn (backoff 1 e1 s1) = (Inl e2, s2)"
      and "fn (backoff 2 e2 s2) = (Inl e3, s3)"
      and "fn (backoff 3 e3 s3) = (Inl e4, s4)"
      and "fn (backoff 4 e4 s4) = (Inl e5, s5)"
  shows "retryLoop 5 1 fn None s = (Inl e5, backoff 5 e5 s5)"
proof -
  have "retryLoop (Suc (Suc (Suc (Suc (Suc 0))))) (Suc 0) fn None s
          = (Inl e5, backoff (Suc (Suc (Suc (Suc (Suc 0))))) e5 s5)"
    using assms by (simp add: numeral_2_eq_2 numeral_3_eq_3 eval_nat_numeral)
  then show ?thesis
    by (simp add: eval_nat_numeral)
qed

lemma failingCall_eq:
  "failingCall u = (Inl (Rejected (''failure '' @ show_nat (providerCalls u))),
                    emit (EmbedQuery ''x'') (u\<lparr>providerCalls := Suc (providerCalls u)\<rparr>))"
  by (simp add: failingCall_def callEmbedQuery_def failingProvider_def)

lemma failingCall_run:
  "fst (executeWithRetry failingCall 5 world0) = Inl (Rejected ''failure 4'')
   \<and> sleeps (trace (snd (executeWithRetry failingCall 5 world0))) = [200, 400, 800, 1600, 3200]"
  using retryLoop_five_failures [where fn = failingCall and s = world0,
      OF failingCall_eq failingCall_eq failingCall_eq failingCall_eq failingCall_eq]
  by (simp add: executeWithRetry_def sleeps_backoff sleeps_append world0_def digit_def)

subsection \<open>Retry of provider calls\<close>

text \<open>
  C5, as the code has it. When five attempts in a row fail, \<open>executeWithRetry\<close> has
  called the operation five times, each later call on the state left by the wait after
  the failure before it, and throws the error of the fifth attempt. The wait after the
  failed attempt number \<open>a\<close> is \<open>2 ^ a * 100\<close> milliseconds (200, 400, 800, 1600 and,
  after the fifth failure, 3200), not 100 milliseconds first.
\<close>

theorem executeWithRetry_exhausted:
  fixes fn :: "world \<Rightarrow> (error + 'a) \<times> world"
  assumes "fn s = (Inl e1, s1)"
      and "fn (backoff 1 e1 s1) = (Inl e2, s2)"
      and "fn (backoff 2 e2 s2) = (Inl e3, s3)"
      and "fn (backoff 3 e3 s3) = (Inl e4, s4)"
      and "fn (backoff 4 e4 s4) = (Inl e5, s5)"
  shows "executeWithRetry fn 5 s = (Inl e5, backoff 5 e5 s5)
         \<and> sleeps (trace (backoff a e u)) = sleeps (trace u) @ [2 ^ a * 100]"
  using retryLoop_five_failures [OF assms]
  by (simp add: executeWithRetry_def sleeps_backoff)

theorem executeWithRetry_exhausted_witness:
  "fst (executeWithRetry failingCall 5 world0) = Inl (Rejected ''failure 4'')
   \<and> sleeps (trace (snd (executeWithRetry failingCall 5 world0))) = [200, 400, 800, 1600, 3200]
   \<and> providerCalls (snd (executeWithRetry failingCall 5 world0)) = 5"
  using executeWithRetry_exhausted [where fn = failingCall and s = world0,
      OF failingCall_eq failingCall_eq failingCall_eq failingCall_eq failingCall_eq]
  by (simp add: sleeps_backoff sleeps_append world0_def digit_def)

text \<open>
  A provider call that fails five times: the waits are 200, 400, 800, 1600 and 3200
  milliseconds; the first is not 100.
\<close>

theorem executeWithRetry_first_wait_counterexample:
  "sleeps (trace (snd (executeWithRetry failingCall 5 world0))) = [200, 400, 800, 1600, 3200]
   \<and> hd (sleeps (trace (snd (executeWithRetry failingCall 5 world0)))) \<noteq> 100"
  by (simp add: failingCall_run)

subsection \<open>Embedding a batch\<close>

lemma executeWithRetry_success:
  "fn s = (Inr v, s') \<Longrightarrow> executeWithRetry fn 5 s = (Inr v, s')"
  by (simp add: executeWithRetry_def eval_nat_numeral)

lemma enforceRateLimit_keeps [simp]:
  "providerCalls (enforceRateLimit g s) = providerCalls s"
  "cache (enforceRateLimit g s) = cache s"
  "providerLog (enforceRateLimit g s) = providerLog s"
  by (simp_all add: enforceRateLimit_def delay_def emit_def providerLog_def Let_def split: list.split)

lemma ensureVectorSize_keeps [simp]:
  "providerCalls (ensureVectorSize v t s) = providerCalls s"
  "cache (ensureVectorSize v t s) = cache s"
  "providerLog (ensureVectorSize v t s) = providerLog s"
  by (simp_all add: ensureVectorSize_def emit_def providerLog_def)

lemma setCacheEntry_keeps [simp]:
  "providerCalls (setCacheEntry g k v s) = providerCalls s"
  "providerLog (setCacheEntry g k v s) = providerLog s"
  by (simp_all add: setCacheEntry_def providerLog_def Let_def)

lemma providerLog_emit [simp]:
  "providerLog (emit e s) = providerLog s @ (if isProviderCall e then [e] else [])"
  by (simp add: providerLog_def emit_def)

lemma providerLog_upd [simp]:
  "providerLog (s\<lparr>providerCalls := n\<rparr>) = providerLog s"
  by (simp add: providerLog_def)

lemma cache_get_miss: "cache s = [] \<Longrightarrow> cache_get k s = (None, emit (CacheGet k) s)"
  by (simp add: cache_get_def)

lemma checkCache_aab:
  assumes "cache s = []"
  shows "checkCache md5 0 [''a'', ''a'', ''b''] ([None, None, None], [], []) s =
           (([None, None, None], [''a'', ''a'', ''b''], [0, 1, 2]),
            emit (CacheGet (md5 ''b'')) (emit (CacheGet (md5 ''a'')) (emit (CacheGet (md5 ''a'')) s)))"
  using assms by (simp add: cache_get_miss cacheKey_def)

lemma batchesFrom_single:
  "xs \<noteq> [] \<Longrightarrow> length xs \<le> n \<Longrightarrow> batchesFrom 0 n xs = [\<lparr> start = 0, items = xs \<rparr>]"
  by (subst batchesFrom.simps, subst batchesFrom.simps) (cases xs; auto)

lemma embedTextsChunk_aab:
  assumes "cache s = []"
      and "embedDocuments P (providerCalls s) [''a'', ''a'', ''b''] = Inr [v1, v2, v3]"
  shows "\<exists>s'. embedTextsChunk g P md5 [''a'', ''a'', ''b''] s = (Inr [Some v1, Some v2, Some v3], s')
           \<and> providerLog s' = providerLog s @ [EmbedDocuments [''a'', ''a'', ''b'']]
           \<and> providerCalls s' = Suc (providerCalls s)"
proof -
  let ?s1 = "emit (CacheGet (md5 ''b'')) (emit (CacheGet (md5 ''a'')) (emit (CacheGet (md5 ''a'')) s))"
  have call: "callEmbedDocuments P [''a'', ''a'', ''b''] (enforceRateLimit g ?s1)
        = (Inr [v1, v2, v3],
           emit (EmbedDocuments [''a'', ''a'', ''b''])
             ((enforceRateLimit g ?s1)\<lparr>providerCalls := Suc (providerCalls s)\<rparr>))"
    using assms(2) by (simp add: callEmbedDocuments_def)
  have run: "executeWithRetry (\<lambda>u. callEmbedDocuments P [''a'', ''a'', ''b''] (enforceRateLimit g u)) 5 ?s1
        = (Inr [v1, v2, v3],
           emit (EmbedDocuments [''a'', ''a'', ''b''])
             ((enforceRateLimit g ?s1)\<lparr>providerCalls := Suc (providerCalls s)\<rparr>))"
    by (rule executeWithRetry_success) (rule call)
  have chk: "checkCache md5 0 [''a'', ''a'', ''b''] (replicate (length [''a'', ''a'', ''b'']) None, [], []) s
        = (([None, None, None], [''a'', ''a'', ''b''], [0, 1, 2]), ?s1)"
    using checkCache_aab [OF assms(1)] by (simp add: eval_nat_numeral)
  show ?thesis
    unfolding embedTextsChunk_def chk
    by (simp add: run mapFilled_def numeral_2_eq_2 Let_def)
qed

lemma embedBatch_single_batch:
  assumes "cache s = []"
      and "3 \<le> (case bsize of None \<Rightarrow> batchSize g | Some b \<Rightarrow> b)"
      and "1 \<le> maxConcurrency g"
      and "embedDocuments P (providerCalls s) [''a'', ''a'', ''b''] = Inr [v1, v2, v3]"
  shows "\<exists>s'. embedBatch g P md5 [''a'', ''a'', ''b''] bsize s = Some (Inr [Some v1, Some v2, Some v3], s')
           \<and> providerLog s' = providerLog s @ [EmbedDocuments [''a'', ''a'', ''b'']]
           \<and> providerCalls s' = Suc (providerCalls s)"
proof -
  define n where "n = (case bsize of None \<Rightarrow> batchSize g | Some b \<Rightarrow> b)"
  from embedTextsChunk_aab [OF assms(1) assms(4)]
  obtain s1 where chunk: "embedTextsChunk g P md5 [''a'', ''a'', ''b''] s = (Inr [Some v1, Some v2, Some v3], s1)"
    and log: "providerLog s1 = providerLog s @ [EmbedDocuments [''a'', ''a'', ''b'']]"
    and calls: "providerCalls s1 = Suc (providerCalls s)"
    by blast
  have "3 \<le> n" using assms(2) by (simp add: n_def)
  then have batches: "createBatches [''a'', ''a'', ''b''] n = Some [\<lparr> start = 0, items = [''a'', ''a'', ''b''] \<rparr>]"
    by (simp add: createBatches_def batchesFrom_single)
  have w: "\<And>len. worker g P md5 len \<lparr> start = 0, items = [''a'', ''a'', ''b''] \<rparr> ([None, None, None], 0) s
             = (Inr ([Some v1, Some v2, Some v3], 3), s1)"
    by (simp add: worker_def chunk numeral_2_eq_2 Let_def)
  have conc: "\<not> min (maxConcurrency g) 1 \<le> 0" using assms(3) by simp
  have "embedBatch g P md5 [''a'', ''a'', ''b''] bsize s = Some (Inr [Some v1, Some v2, Some v3], s1)"
    unfolding embedBatch_def n_def [symmetric] batches
    using conc by (simp add: runWithConcurrency_def w mapFilled_def numeral_3_eq_3 Let_def)
  with log calls show ?thesis by blast
qed

lemma echo_run:
  "map_option fst (embedBatch defaultGenerator echoProvider id [''a'', ''a'', ''b''] None world0)
     = Some (Inr [Some [97], Some [97], Some [98]])
   \<and> map_option (providerLog \<circ> snd) (embedBatch defaultGenerator echoProvider id [''a'', ''a'', ''b''] None world0)
     = Some [EmbedDocuments [''a'', ''a'', ''b'']]"
  using embedBatch_single_batch [where s = world0 and bsize = None and g = defaultGenerator
      and P = echoProvider and ?v1.0 = "[97]" and ?v2.0 = "[97]" and ?v3.0 = "[98]" and ?md5.0 = id]
  by (auto simp add: world0_def defaultGenerator_def echoProvider_def textVector_def
      DEFAULT_BATCH_SIZE_def DEFAULT_MAX_CONCURRENCY_def providerLog_def)

text \<open>
  C1, as the code has it. On a generator whose cache is empty, with a batch size of at
  least three and at least one worker, \<open>embedBatch(["a","a","b"])\<close> issues exactly one
  provider call; the call carries all three texts \<open>["a","a","b"]\<close>, the duplicate
  included, since every text missed the cache when it was looked up; and the result is
  the provider's three vectors in the order of the input.
\<close>

theorem embedBatch_sends_every_miss:
  assumes "cache s = []"
      and "3 \<le> (case bsize of None \<Rightarrow> batchSize g | Some b \<Rightarrow> b)"
      and "1 \<le> maxConcurrency g"
      and "embedDocuments P (providerCalls s) [''a'', ''a'', ''b''] = Inr [v1, v2, v3]"
  shows "\<exists>s'. embedBatch g P md5 [''a'', ''a'', ''b''] bsize s = Some (Inr [Some v1, Some v2, Some v3], s')
           \<and> providerLog s' = providerLog s @ [EmbedDocuments [''a'', ''a'', ''b'']]
           \<and> providerCalls s' = Suc (providerCalls s)"
  using assms by (rule embedBatch_single_batch)

theorem embedBatch_sends_every_miss_witness:
  "\<exists>s'. embedBatch defaultGenerator echoProvider id [''a'', ''a'', ''b''] None world0
            = Some (Inr [Some [97], Some [97], Some [98]], s')
         \<and> providerLog s' = [EmbedDocuments [''a'', ''a'', ''b'']]
         \<and> providerCalls s' = 1"
  using embedBatch_sends_every_miss [where s = world0 and bsize = None and g = defaultGenerator
      and P = echoProvider and ?v1.0 = "[97]" and ?v2.0 = "[97]" and ?v3.0 = "[98]" and ?md5.0 = id]
  by (simp add: world0_def defaultGenerator_def echoProvider_def textVector_def
      DEFAULT_BATCH_SIZE_def DEFAULT_MAX_CONCURRENCY_def providerLog_def)

text \<open>
  On the default generator with an empty cache, the one provider call of
  \<open>embedBatch(["a","a","b"])\<close> carries \<open>["a","a","b"]\<close>, not \<open>["a","b"]\<close>.
\<close>

theorem embedBatch_distinct_texts_counterexample:
  "map_option (providerLog \<circ> snd)
       (embedBatch defaultGenerator echoProvider id [''a'', ''a'', ''b''] None world0)
     = Some [EmbedDocuments [''a'', ''a'', ''b'']]
   \<and> map_option (providerLog \<circ> snd)
       (embedBatch defaultGenerator echoProvider id [''a'', ''a'', ''b''] None world0)
     \<noteq> Some [EmbedDocuments [''a'', ''b'']]"
proof -
  let ?log = "map_option (providerLog \<circ> snd)
       (embedBatch defaultGenerator echoProvider id [''a'', ''a'', ''b''] None world0)"
  have "?log = Some [EmbedDocuments [''a'', ''a'', ''b'']]"
    using echo_run by (rule conjunct2)
  then show ?thesis
    by (simp only: simp_thms) simp
qed



subsection \<open>Embedding one text\<close>

lemma trim_Nil_iff: "trim t = [] \<longleftrightarrow> list_all isSpace t"
proof
  assume "trim t = []"
  then have a: "\<forall>x\<in>set (dropWhile isSpace t). isSpace x"
    by (simp add: trim_def dropWhile_eq_Nil_conv)
  have "dropWhile isSpace t = []"
  proof (rule ccontr)
    assume n: "dropWhile isSpace t \<noteq> []"
    then have "\<not> isSpace (hd (dropWhile isSpace t))" by (rule hd_dropWhile)
    with a n show False by (meson hd_in_set)
  qed
  then show "list_all isSpace t"
    by (simp add: dropWhile_eq_Nil_conv list_all_iff)
next
  assume "list_all isSpace t"
  then have "dropWhile isSpace t = []"
    unfolding dropWhile_eq_Nil_conv list_all_iff .
  then show "trim t = []"
    by (simp only: trim_def rev.simps dropWhile.simps)
qed

lemma dropWhile_fix: "xs = [] \<or> \<not> P (hd xs) \<Longrightarrow> dropWhile P xs = xs"
  by (cases xs) auto

lemma dropWhile_head: "dropWhile P xs = [] \<or> \<not> P (hd (dropWhile P xs))"
  using hd_dropWhile by blast

lemma last_dropWhile_keep: "dropWhile P xs \<noteq> [] \<Longrightarrow> last (dropWhile P xs) = last xs"
  by (metis last_appendR takeWhile_dropWhile_id)

lemma trim_idem: "trim (trim t) = trim t"
proof -
  define u where "u = dropWhile isSpace t"
  define w where "w = dropWhile isSpace (rev u)"
  have hu: "u = [] \<or> \<not> isSpace (hd u)" unfolding u_def by (rule dropWhile_head)
  have hw: "w = [] \<or> \<not> isSpace (hd w)" unfolding w_def by (rule dropWhile_head)
  have "rev w = [] \<or> \<not> isSpace (hd (rev w))"
  proof (cases "w = []")
    case True then show ?thesis by simp
  next
    case False
    then have "u \<noteq> []" unfolding w_def by auto
    moreover have "last w = last (rev u)" using False unfolding w_def by (rule last_dropWhile_keep)
    ultimately have "hd (rev w) = hd u" using False by (simp add: hd_rev last_rev)
    with hu \<open>u \<noteq> []\<close> show ?thesis by simp
  qed
  then have "dropWhile isSpace (rev w) = rev w" by (rule dropWhile_fix)
  moreover have "dropWhile isSpace w = w" using hw by (rule dropWhile_fix)
  ultimately show ?thesis
    by (simp add: trim_def u_def [symmetric] w_def [symmetric])
qed

lemma cacheLog_steps [simp]:
  "cacheLog (emit e s) = cacheLog s @ (if isCacheGet e then [e] else [])"
  "cacheLog (enforceRateLimit g s) = cacheLog s"
  "cacheLog (backoff a err s) = cacheLog s"
  "cacheLog (setCacheEntry g k v s) = cacheLog s"
  "cacheLog (ensureVectorSize v t s) = cacheLog s"
  "cacheLog (s\<lparr>providerCalls := n\<rparr>) = cacheLog s"
  by (simp_all add: cacheLog_def emit_def enforceRateLimit_def backoff_def delay_def setCacheEntry_def
      ensureVectorSize_def Let_def split: list.split)

lemma providerLog_backoff [simp]: "providerLog (backoff a err s) = providerLog s"
  by (simp add: backoff_def delay_def emit_def providerLog_def Let_def)

lemma retry_query_logs:
  "\<exists>m\<le>n. providerLog (snd (retryLoop n a (\<lambda>u. callEmbedQuery P x (enforceRateLimit g u)) e s))
              = providerLog s @ replicate m (EmbedQuery x)
          \<and> cacheLog (snd (retryLoop n a (\<lambda>u. callEmbedQuery P x (enforceRateLimit g u)) e s))
              = cacheLog s"
proof (induction n arbitrary: a e s)
  case 0
  then show ?case by simp
next
  case (Suc n)
  let ?fn = "\<lambda>u. callEmbedQuery P x (enforceRateLimit g u)"
  let ?s1 = "emit (EmbedQuery x) ((enforceRateLimit g s)\<lparr>providerCalls := Suc (providerCalls s)\<rparr>)"
  have s1: "providerLog ?s1 = providerLog s @ [EmbedQuery x]" "cacheLog ?s1 = cacheLog s"
    by simp_all
  show ?case
  proof (cases "embedQuery P (providerCalls s) x")
    case (Inr v)
    then have "retryLoop (Suc n) a ?fn e s = (Inr v, ?s1)"
      by (simp add: callEmbedQuery_def)
    with s1 show ?thesis by (intro exI [of _ 1]) simp
  next
    case (Inl err)
    then have run: "retryLoop (Suc n) a ?fn e s = retryLoop n (Suc a) ?fn (Some err) (backoff a err ?s1)"
      by (simp add: callEmbedQuery_def)
    from Suc.IH [of "Suc a" "Some err" "backoff a err ?s1"]
    obtain m where "m \<le> n"
      and "providerLog (snd (retryLoop n (Suc a) ?fn (Some err) (backoff a err ?s1)))
             = providerLog (backoff a err ?s1) @ replicate m (EmbedQuery x)"
      and "cacheLog (snd (retryLoop n (Suc a) ?fn (Some err) (backoff a err ?s1)))
             = cacheLog (backoff a err ?s1)"
      by blast
    with s1 show ?thesis
      unfolding run by (intro exI [of _ "Suc m"]) simp
  qed
qed

lemma map_of_cache_set: "map_of (cache_set k v c) k = Some v"
  by (induction c) simp_all

lemma map_of_setCacheEntry: "map_of (cache (setCacheEntry g k v s)) k = Some v"
  by (simp add: setCacheEntry_def Let_def map_of_cache_set)

lemma embedText_hit:
  assumes "trim t \<noteq> []" and "map_of (cache s) (md5 (trim t)) = Some v"
  shows "embedText g P md5 t s = (Inr v, emit (CacheGet (md5 (trim t))) s)"
  using assms by (simp add: embedText_def cacheKey_def cache_get_def Let_def)

lemma embedText_miss:
  assumes "trim t \<noteq> []" and "map_of (cache s) (md5 (trim t)) = None"
  shows "embedText g P md5 t s =
           (case executeWithRetry (\<lambda>u. callEmbedQuery P (trim t) (enforceRateLimit g u)) 5
                   (emit (CacheGet (md5 (trim t))) s) of
              (Inl e, s2) \<Rightarrow> (Inl e, s2)
            | (Inr fetched, s2) \<Rightarrow>
                (Inr fetched,
                 ensureVectorSize fetched (trim t) (setCacheEntry g (md5 (trim t)) fetched s2)))"
  using assms by (simp add: embedText_def cacheKey_def cache_get_def Let_def)

lemma embedText_logs:
  assumes "trim t \<noteq> []"
  shows "cacheLog (snd (embedText g P md5 t s)) = cacheLog s @ [CacheGet (md5 (trim t))]
         \<and> (\<exists>m\<le>5. providerLog (snd (embedText g P md5 t s))
                       = providerLog s @ replicate m (EmbedQuery (trim t)))"
proof (cases "map_of (cache s) (md5 (trim t))")
  case (Some v)
  with assms have "embedText g P md5 t s = (Inr v, emit (CacheGet (md5 (trim t))) s)"
    by (rule embedText_hit)
  then show ?thesis by (intro conjI exI [of _ 0]) simp_all
next
  case None
  let ?s1 = "emit (CacheGet (md5 (trim t))) s"
  let ?run = "executeWithRetry (\<lambda>u. callEmbedQuery P (trim t) (enforceRateLimit g u)) 5 ?s1"
  from retry_query_logs [where n = 5 and P = P and x = "trim t" and g = g and a = 1 and e = None
      and s = ?s1]
  obtain m where m: "m \<le> 5"
    and pl: "providerLog (snd ?run) = providerLog ?s1 @ replicate m (EmbedQuery (trim t))"
    and cl: "cacheLog (snd ?run) = cacheLog ?s1"
    unfolding executeWithRetry_def by blast
  obtain r s2 where run: "?run = (r, s2)" by (cases ?run)
  from embedText_miss [where t = t and s = s and ?md5.0 = md5 and g = g and P = P] assms None
  have "cacheLog (snd (embedText g P md5 t s)) = cacheLog s2
        \<and> providerLog (snd (embedText g P md5 t s)) = providerLog s2"
    by (cases r) (simp_all add: run)
  with m pl cl show ?thesis
    by (intro conjI exI [of _ m]) (simp_all add: run)
qed

lemma embedText_fetch:
  assumes "trim t \<noteq> []" and "map_of (cache s) (md5 (trim t)) = None"
      and "embedQuery P (providerCalls s) (trim t) = Inr v"
  shows "fst (embedText g P md5 t s) = Inr v
         \<and> providerLog (snd (embedText g P md5 t s)) = providerLog s @ [EmbedQuery (trim t)]
         \<and> map_of (cache (snd (embedText g P md5 t s))) (md5 (trim t)) = Some v"
proof -
  let ?s1 = "emit (CacheGet (md5 (trim t))) s"
  let ?s2 = "emit (EmbedQuery (trim t)) ((enforceRateLimit g ?s1)\<lparr>providerCalls := Suc (providerCalls s)\<rparr>)"
  have "callEmbedQuery P (trim t) (enforceRateLimit g ?s1) = (Inr v, ?s2)"
    using assms(3) by (simp add: callEmbedQuery_def)
  then have "executeWithRetry (\<lambda>u. callEmbedQuery P (trim t) (enforceRateLimit g u)) 5 ?s1 = (Inr v, ?s2)"
    by (rule executeWithRetry_success)
  with embedText_miss [where t = t and s = s and ?md5.0 = md5 and g = g and P = P] assms(1,2)
  have "embedText g P md5 t s
          = (Inr v, ensureVectorSize v (trim t) (setCacheEntry g (md5 (trim t)) v ?s2))"
    by simp
  then show ?thesis by (simp add: map_of_setCacheEntry)
qed

lemma cached_run:
  "map_of (cache (world0\<lparr>cache := [(''a'', [1, 2])]\<rparr>)) (id (trim '' a '')) = Some [1, 2]
   \<and> map_of (cache world0) (id (trim '' a '')) = None
   \<and> embedQuery echoProvider (providerCalls world0) (trim '' a '') = Inr [97]
   \<and> trim '' a '' = ''a''
   \<and> list_all isSpace [CHR '' '', CHR 0x09, CHR 0xA0]
   \<and> \<not> list_all isSpace '' a ''"
  by code_simp

text \<open>
  C9. A text that is empty or all white space makes \<open>embedText\<close> throw
  \<open>Cannot embed empty text\<close> and leaves the state as it was: no cache read, no provider
  call, no log line. On any other text the call is the call on the trimmed text: it
  reads the cache once, under the key of \<open>trim t\<close>, and every call of the provider, of
  which there are at most five, sends \<open>trim t\<close>. When the cache holds a vector under that
  key, the vector is returned and nothing else happens; when it holds none and the
  provider answers the first call, the answer is returned and stored under that key.
\<close>

theorem embedText_trims:
  "(list_all isSpace t \<longrightarrow> embedText g P md5 t s = (Inl (Error ''Cannot embed empty text''), s))
   \<and> (\<not> list_all isSpace t \<longrightarrow>
         embedText g P md5 t s = embedText g P md5 (trim t) s
         \<and> cacheLog (snd (embedText g P md5 t s)) = cacheLog s @ [CacheGet (md5 (trim t))]
         \<and> (\<exists>m\<le>5. providerLog (snd (embedText g P md5 t s))
                       = providerLog s @ replicate m (EmbedQuery (trim t))))
   \<and> (\<not> list_all isSpace t \<and> map_of (cache s) (md5 (trim t)) = Some v \<longrightarrow>
         embedText g P md5 t s = (Inr v, emit (CacheGet (md5 (trim t))) s))
   \<and> (\<not> list_all isSpace t \<and> map_of (cache s) (md5 (trim t)) = None
         \<and> embedQuery P (providerCalls s) (trim t) = Inr w \<longrightarrow>
         fst (embedText g P md5 t s) = Inr w
         \<and> providerLog (snd (embedText g P md5 t s)) = providerLog s @ [EmbedQuery (trim t)]
         \<and> map_of (cache (snd (embedText g P md5 t s))) (md5 (trim t)) = Some w)"
proof (intro conjI impI)
  assume "list_all isSpace t"
  then show "embedText g P md5 t s = (Inl (Error ''Cannot embed empty text''), s)"
    by (simp add: embedText_def trim_Nil_iff [symmetric] Let_def)
next
  assume "\<not> list_all isSpace t"
  then show "embedText g P md5 t s = embedText g P md5 (trim t) s"
    by (simp add: embedText_def trim_idem Let_def)
next
  assume "\<not> list_all isSpace t"
  then have "trim t \<noteq> []" by (simp add: trim_Nil_iff)
  then show "cacheLog (snd (embedText g P md5 t s)) = cacheLog s @ [CacheGet (md5 (trim t))]"
    and "\<exists>m\<le>5. providerLog (snd (embedText g P md5 t s))
                   = providerLog s @ replicate m (EmbedQuery (trim t))"
    using embedText_logs [of t g P md5 s] by simp_all
next
  assume "\<not> list_all isSpace t \<and> map_of (cache s) (md5 (trim t)) = Some v"
  then show "embedText g P md5 t s = (Inr v, emit (CacheGet (md5 (trim t))) s)"
    by (intro embedText_hit) (simp_all add: trim_Nil_iff)
next
  assume a: "\<not> list_all isSpace t \<and> map_of (cache s) (md5 (trim t)) = None
         \<and> embedQuery P (providerCalls s) (trim t) = Inr w"
  then have "trim t \<noteq> []" by (simp add: trim_Nil_iff)
  with a show "fst (embedText g P md5 t s) = Inr w"
    and "providerLog (snd (embedText g P md5 t s)) = providerLog s @ [EmbedQuery (trim t)]"
    and "map_of (cache (snd (embedText g P md5 t s))) (md5 (trim t)) = Some w"
    using embedText_fetch [of t s md5 P w g] by simp_all
qed

theorem embedText_trims_witness:
  "embedText defaultGenerator echoProvider id [CHR '' '', CHR 0x09, CHR 0xA0] world0
     = (Inl (Error ''Cannot embed empty text''), world0)
   \<and> embedText defaultGenerator echoProvider id '' a '' world0
     = embedText defaultGenerator echoProvider id ''a'' world0
   \<and> cacheLog (snd (embedText defaultGenerator echoProvider id '' a '' world0)) = [CacheGet ''a'']
   \<and> embedText defaultGenerator echoProvider id '' a '' (world0\<lparr>cache := [(''a'', [1, 2])]\<rparr>)
     = (Inr [1, 2], emit (CacheGet ''a'') (world0\<lparr>cache := [(''a'', [1, 2])]\<rparr>))
   \<and> fst (embedText defaultGenerator echoProvider id '' a '' world0) = Inr [97]
   \<and> providerLog (snd (embedText defaultGenerator echoProvider id '' a '' world0)) = [EmbedQuery ''a'']
   \<and> map_of (cache (snd (embedText defaultGenerator echoProvider id '' a '' world0))) ''a'' = Some [97]"
proof -
  note blank = embedText_trims [where t = "[CHR '' '', CHR 0x09, CHR 0xA0]" and g = defaultGenerator
      and P = echoProvider and ?md5.0 = id and s = world0]
  note hit = embedText_trims [where t = "'' a ''" and g = defaultGenerator and P = echoProvider
      and ?md5.0 = id and s = "world0\<lparr>cache := [(''a'', [1, 2])]\<rparr>" and v = "[1, 2]"]
  note miss = embedText_trims [where t = "'' a ''" and g = defaultGenerator and P = echoProvider
      and ?md5.0 = id and s = world0 and w = "[97]"]
  have held: "map_of (cache (world0\<lparr>cache := [(''a'', [1, 2])]\<rparr>)) (id (trim '' a '')) = Some [1, 2]"
    and fresh: "map_of (cache world0) (id (trim '' a '')) = None"
    and answer: "embedQuery echoProvider (providerCalls world0) (trim '' a '') = Inr [97]"
    and trimmed: "trim '' a '' = ''a''"
    and blanks: "list_all isSpace [CHR '' '', CHR 0x09, CHR 0xA0]"
    and letters: "\<not> list_all isSpace '' a ''"
    using cached_run by blast+
  have logs: "cacheLog world0 = []" "providerLog world0 = []"
    by (simp_all add: cacheLog_def providerLog_def world0_def)
  from blank [THEN conjunct1, rule_format, OF blanks]
  have one: "embedText defaultGenerator echoProvider id [CHR '' '', CHR 0x09, CHR 0xA0] world0
     = (Inl (Error ''Cannot embed empty text''), world0)" .
  from hit [THEN conjunct2, THEN conjunct2, THEN conjunct1, rule_format, OF conjI [OF letters held]]
  have two: "embedText defaultGenerator echoProvider id '' a '' (world0\<lparr>cache := [(''a'', [1, 2])]\<rparr>)
     = (Inr [1, 2], emit (CacheGet ''a'') (world0\<lparr>cache := [(''a'', [1, 2])]\<rparr>))"
    by (simp only: trimmed id_apply)
  note same = miss [THEN conjunct2, THEN conjunct1, rule_format, OF letters]
  from same [THEN conjunct1]
  have three: "embedText defaultGenerator echoProvider id '' a '' world0
         = embedText defaultGenerator echoProvider id ''a'' world0"
    by (simp only: trimmed)
  from same [THEN conjunct2, THEN conjunct1]
  have read: "cacheLog (snd (embedText defaultGenerator echoProvider id '' a '' world0)) = [CacheGet ''a'']"
    by (simp only: trimmed id_apply logs append_Nil)
  from miss [THEN conjunct2, THEN conjunct2, THEN conjunct2, rule_format,
      OF conjI [OF letters conjI [OF fresh answer]]]
  have four: "fst (embedText defaultGenerator echoProvider id '' a '' world0) = Inr [97]
     \<and> providerLog (snd (embedText defaultGenerator echoProvider id '' a '' world0)) = [EmbedQuery ''a'']
     \<and> map_of (cache (snd (embedText defaultGenerator echoProvider id '' a '' world0))) ''a'' = Some [97]"
    by (simp only: trimmed id_apply logs append_Nil simp_thms)
  from one two three read four show ?thesis by (intro conjI) (simp_all only: simp_thms)
qed

subsection \<open>Splitting by tokens\<close>

lemma overlapLoop_spec:
  "\<exists>k\<le>length xs.
      overlapLoop ct ov xs tok acc = (rev (take k xs) @ acc, tok + sum_list (map ct (take k xs)))
      \<and> (xs \<noteq> [] \<and> int tok < ov \<longrightarrow> 0 < k)
      \<and> (0 < k \<longrightarrow> int (tok + sum_list (map ct (take (k - 1) xs))) < ov)
      \<and> (k < length xs \<longrightarrow> ov \<le> int (tok + sum_list (map ct (take k xs))))"
proof (induction xs arbitrary: tok acc)
  case Nil
  then show ?case by simp
next
  case (Cons x xs)
  show ?case
  proof (cases "int tok < ov")
    case False
    then show ?thesis by (intro exI [of _ 0]) simp
  next
    case True
    from Cons.IH [of "tok + ct x" "x # acc"]
    obtain k where k: "k \<le> length xs"
      and run: "overlapLoop ct ov xs (tok + ct x) (x # acc)
                  = (rev (take k xs) @ x # acc, tok + ct x + sum_list (map ct (take k xs)))"
      and least: "0 < k \<longrightarrow> int (tok + ct x + sum_list (map ct (take (k - 1) xs))) < ov"
      and reached: "k < length xs \<longrightarrow> ov \<le> int (tok + ct x + sum_list (map ct (take k xs)))"
      by blast
    have "int (tok + sum_list (map ct (take k (x # xs)))) < ov"
    proof (cases k)
      case 0
      with True show ?thesis by simp
    next
      case (Suc j)
      with least show ?thesis by (simp add: add.assoc)
    qed
    then show ?thesis
      using True k run reached by (intro exI [of _ "Suc k"]) (simp add: add.assoc)
  qed
qed

lemma overlapSentences_props:
  assumes "previous \<noteq> []" and "0 < ov"
  shows "\<exists>n. 0 < n \<and> n \<le> length previous
           \<and> overlapSentences ct ov previous = drop (length previous - n) previous
           \<and> (ov \<le> int (sum_list (map ct (drop (length previous - n) previous))) \<or> n = length previous)
           \<and> int (sum_list (map ct (tl (drop (length previous - n) previous)))) < ov"
proof -
  from overlapLoop_spec [of "rev previous" ct ov 0 "[]"]
  obtain k where k: "k \<le> length previous"
    and run: "overlapLoop ct ov (rev previous) 0 [] = (rev (take k (rev previous)), sum_list (map ct (take k (rev previous))))"
    and pos: "0 < k"
    and least: "int (sum_list (map ct (take (k - 1) (rev previous)))) < ov"
    and reached: "k < length previous \<longrightarrow> ov \<le> int (sum_list (map ct (take k (rev previous))))"
    using assms by auto
  have seed: "overlapSentences ct ov previous = drop (length previous - k) previous"
    by (simp add: overlapSentences_def run rev_take)
  have "tl (drop (length previous - k) previous) = drop (length previous - (k - 1)) previous"
    using k pos by (simp add: drop_Suc [symmetric] tl_drop Suc_diff_le del: drop_Suc) 
  also have "\<dots> = rev (take (k - 1) (rev previous))"
    by (simp add: rev_take)
  finally have tail: "sum_list (map ct (tl (drop (length previous - k) previous)))
                  = sum_list (map ct (take (k - 1) (rev previous)))"
    by (simp add: rev_map [symmetric])
  have "drop (length previous - k) previous = rev (take k (rev previous))"
    by (simp add: rev_take)
  then have whole: "sum_list (map ct (drop (length previous - k) previous))
                  = sum_list (map ct (take k (rev previous)))"
    by (simp add: rev_map [symmetric])
  from reached k have "ov \<le> int (sum_list (map ct (take k (rev previous)))) \<or> k = length previous"
    by auto
  with least pos k seed tail whole show ?thesis
    by (intro exI [of _ k]) simp
qed

lemma seeds_intro:
  assumes "0 < n" and "n \<le> length previous"
      and "take n successor = drop (length previous - n) previous"
      and "n < length successor"
      and "ov \<le> int (sum_list (map ct (drop (length previous - n) previous))) \<or> n = length previous"
      and "int (sum_list (map ct (tl (drop (length previous - n) previous)))) < ov"
  shows "seeds ct ov previous successor"
proof -
  from assms(1,2) have "n \<in> set [1..<Suc (length previous)]" by auto
  with assms(3-6) show ?thesis
    unfolding seeds_def list_ex_iff Let_def by blast
qed

lemma splitLoop_chunks:
  "splitLoop ct m ov sents chunks cur tok = chunks @ splitLoop ct m ov sents [] cur tok"
proof (induction sents arbitrary: chunks cur tok)
  case Nil
  then show ?case by simp
next
  case (Cons s sents)
  have a: "\<And>c t. splitLoop ct m ov sents (chunks @ [cur]) c t
                  = chunks @ cur # splitLoop ct m ov sents [] c t"
    using Cons.IH [of "chunks @ [cur]"] by simp
  have b: "\<And>c t. splitLoop ct m ov sents [cur] c t = cur # splitLoop ct m ov sents [] c t"
    using Cons.IH [of "[cur]"] by simp
  have c: "\<And>c t. splitLoop ct m ov sents chunks c t = chunks @ splitLoop ct m ov sents [] c t"
    by (rule Cons.IH)
  show ?case
    by (auto simp add: Let_def a b c split: prod.splits)
qed

lemma splitLoop_seeds:
  assumes "0 < ov"
  shows "successively (seeds ct ov) (splitLoop ct m ov sents [] cur tok)
         \<and> (cur \<noteq> [] \<longrightarrow> (\<exists>more rest. splitLoop ct m ov sents [] cur tok = (cur @ more) # rest))"
proof (induction sents arbitrary: cur tok)
  case Nil
  then show ?case by simp
next
  case (Cons s sents)
  show ?case
  proof (cases "int (tok + ct s) > m \<and> cur \<noteq> []")
    case False
    from Cons.IH [of "cur @ [s]" "tok + ct s"]
    obtain more rest where
      succ: "successively (seeds ct ov) (splitLoop ct m ov sents [] (cur @ [s]) (tok + ct s))"
      and hd: "splitLoop ct m ov sents [] (cur @ [s]) (tok + ct s) = ((cur @ [s]) @ more) # rest"
      by auto
    have eq: "splitLoop ct m ov (s # sents) [] cur tok = splitLoop ct m ov sents [] (cur @ [s]) (tok + ct s)"
      using False by (auto simp add: Let_def)
    show ?thesis
      unfolding eq using succ hd by auto
  next
    case True
    obtain os ot where ol: "overlapLoop ct ov (rev cur) 0 [] = (os, ot)"
      by (cases "overlapLoop ct ov (rev cur) 0 []")
    then have os: "os = overlapSentences ct ov cur" by (simp add: overlapSentences_def)
    from Cons.IH [of "os @ [s]" "ot + ct s"]
    obtain more rest where
      succ: "successively (seeds ct ov) (splitLoop ct m ov sents [] (os @ [s]) (ot + ct s))"
      and hd: "splitLoop ct m ov sents [] (os @ [s]) (ot + ct s) = ((os @ [s]) @ more) # rest"
      by auto
    have "splitLoop ct m ov (s # sents) [] cur tok
            = splitLoop ct m ov sents [cur] (os @ [s]) (ot + ct s)"
      using True assms ol by (auto simp add: Let_def)
    also have "\<dots> = [cur] @ splitLoop ct m ov sents [] (os @ [s]) (ot + ct s)"
      by (rule splitLoop_chunks)
    finally have run: "splitLoop ct m ov (s # sents) [] cur tok
                 = cur # splitLoop ct m ov sents [] (os @ [s]) (ot + ct s)"
      by simp
    from overlapSentences_props [of cur ov ct] True assms
    obtain n where n: "0 < n" "n \<le> length cur"
      and seed: "os = drop (length cur - n) cur"
      and reached: "ov \<le> int (sum_list (map ct (drop (length cur - n) cur))) \<or> n = length cur"
      and least: "int (sum_list (map ct (tl (drop (length cur - n) cur)))) < ov"
      unfolding os [symmetric] by blast
    from n have len: "length os = n" by (simp add: seed)
    have "seeds ct ov cur ((os @ [s]) @ more)"
    proof (rule seeds_intro [OF n(1) n(2) _ _ reached least])
      show "take n ((os @ [s]) @ more) = drop (length cur - n) cur"
        using len by (simp add: seed [symmetric])
      show "n < length ((os @ [s]) @ more)" using len by simp
    qed
    then show ?thesis
      unfolding run using succ hd by auto
  qed
qed

lemma overlapLoop_subset:
  "set (fst (overlapLoop ct ov xs tok acc)) \<subseteq> set xs \<union> set acc"
  by (induction xs arbitrary: tok acc) (auto, fastforce)

lemma splitLoop_sentences:
  "set (concat (splitLoop ct m ov sents chunks cur tok)) \<subseteq> set sents \<union> set (concat chunks) \<union> set cur"
proof (induction sents arbitrary: chunks cur tok)
  case Nil
  then show ?case by auto
next
  case (Cons s sents)
  show ?case
  proof (cases "int (tok + ct s) > m \<and> cur \<noteq> []")
    case False
    then have "splitLoop ct m ov (s # sents) chunks cur tok
                 = splitLoop ct m ov sents chunks (cur @ [s]) (tok + ct s)"
      by (auto simp add: Let_def)
    with Cons.IH [of chunks "cur @ [s]" "tok + ct s"] show ?thesis by auto
  next
    case True
    show ?thesis
    proof (cases "0 < ov")
      case False
      with True have "splitLoop ct m ov (s # sents) chunks cur tok
                   = splitLoop ct m ov sents (chunks @ [cur]) [s] (ct s)"
        by (auto simp add: Let_def)
      with Cons.IH [of "chunks @ [cur]" "[s]" "ct s"] show ?thesis by auto
    next
      case pos: True
      obtain os ot where ol: "overlapLoop ct ov (rev cur) 0 [] = (os, ot)"
        by (cases "overlapLoop ct ov (rev cur) 0 []")
      with overlapLoop_subset [of ct ov "rev cur" 0 "[]"] have os: "set os \<subseteq> set cur" by simp
      from True pos ol have "splitLoop ct m ov (s # sents) chunks cur tok
                   = splitLoop ct m ov sents (chunks @ [cur]) (os @ [s]) (ot + ct s)"
        by (auto simp add: Let_def)
      with Cons.IH [of "chunks @ [cur]" "os @ [s]" "ot + ct s"] os show ?thesis by auto
    qed
  qed
qed

lemma join_append:
  "xs \<noteq> [] \<Longrightarrow> ys \<noteq> [] \<Longrightarrow> join sep (xs @ ys) = join sep xs @ sep @ join sep ys"
proof (induction sep xs rule: join.induct)
  case (1 sep)
  then show ?case by simp
next
  case (2 sep x)
  then show ?case by (cases ys) simp_all
next
  case (3 sep x y zs)
  then show ?case by simp
qed

lemma join_nonempty: "xs \<noteq> [] \<Longrightarrow> [] \<notin> set xs \<Longrightarrow> join sep xs \<noteq> []"
  by (induction sep xs rule: join.induct) auto

lemma seeds_overlaps:
  assumes "seeds ct ov p n" and "[] \<notin> set p"
  shows "overlaps (join sep p) (join sep n)"
proof -
  from assms(1)
  have "\<exists>k\<in>set [1..<Suc (length p)]. take k n = drop (length p - k) p \<and> k < length n"
    unfolding seeds_def list_ex_iff Let_def by blast
  then obtain k where range: "k \<in> set [1..<Suc (length p)]"
    and tk: "take k n = drop (length p - k) p" and kn: "k < length n"
    by blast
  from range have k: "0 < k" "k \<le> length p" by auto
  define seed where "seed = drop (length p - k) p"
  define pre where "pre = take (length p - k) p"
  define rest where "rest = drop k n"
  have p: "p = pre @ seed" by (simp add: pre_def seed_def)
  have "n = take k n @ drop k n" by simp
  then have n: "n = seed @ rest" by (simp only: tk seed_def rest_def)
  have seed: "seed \<noteq> []" using k by (simp add: seed_def)
  have rest: "rest \<noteq> []" using kn by (simp add: rest_def)
  have "[] \<notin> set seed" using assms(2) p by auto
  with seed have js: "join sep seed \<noteq> []" by (rule join_nonempty)
  have endp: "\<exists>a. join sep p = a @ join sep seed"
  proof (cases "pre = []")
    case True
    then show ?thesis by (simp add: p)
  next
    case False
    then have "join sep p = (join sep pre @ sep) @ join sep seed"
      using seed by (simp add: p join_append)
    then show ?thesis by blast
  qed
  then obtain a where a: "join sep p = a @ join sep seed" by blast
  have startn: "join sep n = join sep seed @ sep @ join sep rest"
    using seed rest by (simp add: n join_append)
  let ?j = "length (join sep seed)"
  have "drop (length (join sep p) - ?j) (join sep p) = take ?j (join sep n)"
    by (simp add: a startn)
  moreover have "?j \<in> set [1..<Suc (min (length (join sep p)) (length (join sep n)))]"
    using js by (auto simp add: a startn Suc_le_eq)
  ultimately show ?thesis
    unfolding overlaps_def list_ex_iff by blast
qed

lemma successively_with:
  "successively P xs \<Longrightarrow> (\<forall>x\<in>set xs. Q x) \<Longrightarrow> (\<And>x y. P x y \<Longrightarrow> Q x \<Longrightarrow> R x y)
     \<Longrightarrow> successively R xs"
  by (induction P xs rule: successively.induct) auto

lemma splitByTokens_overlaps:
  assumes "0 < ov"
  shows "successively overlaps (splitByTokens ct t m ov)"
proof -
  let ?sentences = "splitIntoSentences t"
  let ?chunks = "splitSentences ct m ov ?sentences"
  have "[] \<notin> set ?sentences" by (simp add: splitIntoSentences_def)
  moreover have "set (concat ?chunks) \<subseteq> set ?sentences"
    using splitLoop_sentences [of ct m ov ?sentences "[]" "[]" 0] by (simp add: splitSentences_def)
  ultimately have whole: "\<forall>c\<in>set ?chunks. [] \<notin> set c" by auto
  have "successively (seeds ct ov) ?chunks"
    using splitLoop_seeds [OF assms, of ct m ?sentences "[]" 0] by (simp add: splitSentences_def)
  then have "successively (\<lambda>p n. overlaps (join '' '' p) (join '' '' n)) ?chunks"
    using whole by (rule successively_with) (rule seeds_overlaps)
  then show ?thesis
    by (simp add: splitByTokens_def successively_map)
qed

lemma two_sentences:
  "splitIntoSentences ''A. B.'' = [''A.'', ''B.'']
   \<and> splitSentences charCount 3 1 [''A.'', ''B.''] = [[''A.''], [''A.'', ''B.'']]
   \<and> splitByTokens charCount ''A. B.'' 3 1 = [''A.'', ''A. B.'']
   \<and> overlapLoop charCount 1 (rev [''A.'']) 0 [] = ([''A.''], 2)"
  by code_simp

lemma gap_sections: "extractSections ''Aaaa. B. C. Dddd.'' = []"
  by code_simp

lemma gap_split:
  "splitByTokens charCount ''Aaaa. B. C. Dddd.'' 8 1 = [''Aaaa. B.'', ''B. C.'', ''C. Dddd.'']"
  by code_simp

lemma gap_chunks:
  "chunkDocument charCount gapDocument gapOptions =
     Inr [newChunk gapDocument 0 ''Aaaa. B.'' 8 [], newChunk gapDocument 1 ''C. Dddd.'' 8 []]"
  by (simp add: chunkDocument_def gapDocument_def tinyDocument_def gapOptions_def gap_sections gap_split
      SEBIChunkSchema_parse_def SEBIChunkSchema_issues_def newChunk_def charCount_def Let_def)

lemma gap_overlaps: "\<not> overlaps ''Aaaa. B.'' ''C. Dddd.''"
  by code_simp

text \<open>
  C2, as the code has it. With a positive overlap, every chunk that \<open>splitByTokens\<close> closes
  seeds its successor: the successor starts with trailing sentences of the closed chunk,
  taken from the end until their token count reaches \<open>overlap\<close> or the chunk is used up,
  and goes on after them. The seed is never empty and stays below \<open>overlap\<close> only without
  its first sentence; the whole seed may count more tokens than \<open>overlap\<close>. So each text
  that \<open>splitByTokens\<close> returns, but the last, ends with a text that is not empty and
  with which the next one starts.
\<close>

theorem splitSentences_seeds_next:
  "0 < overlap \<Longrightarrow>
     successively (seeds countTokens overlap) (splitSentences countTokens maxTokens overlap sentences)
     \<and> successively overlaps (splitByTokens countTokens t maxTokens overlap)"
  using splitLoop_seeds [of overlap countTokens maxTokens sentences "[]" 0]
    splitByTokens_overlaps [of overlap countTokens t maxTokens]
  by (simp add: splitSentences_def)

theorem splitSentences_seeds_next_witness:
  "(0::int) < 1 \<and> successively (seeds charCount 1) [[''A.''], [''A.'', ''B.'']]
   \<and> successively overlaps [''A.'', ''A. B.'']"
  using splitSentences_seeds_next [of 1 charCount 3 "[''A.'', ''B.'']" "''A. B.''"] two_sentences
  by simp

text \<open>
  With a limit of 3 tokens and an overlap of 1, \<open>A. B.\<close> is split into \<open>A.\<close> and
  \<open>A. B.\<close>: the carried sentence \<open>A.\<close> counts 2 tokens, more than the overlap. The
  same happens with any tokenizer that counts more than \<open>overlap\<close> tokens for the last
  sentence of a closed chunk.

  With a limit of 8 tokens, a minimum of 6 and an overlap of 1, \<open>chunkDocument\<close> makes two
  chunks of \<open>Aaaa. B. C. Dddd.\<close>: the split gives \<open>Aaaa. B.\<close>, \<open>B. C.\<close> and \<open>C. Dddd.\<close>, and
  the middle text, of 5 tokens, is dropped. The two chunks that are left share no text.
\<close>

theorem overlap_exceeds_counterexample:
  "splitByTokens charCount ''A. B.'' 3 1 = [''A.'', ''A. B.'']
   \<and> overlapLoop charCount 1 (rev [''A.'']) 0 [] = ([''A.''], 2)
   \<and> \<not> int (snd (overlapLoop charCount 1 (rev [''A.'']) 0 [])) \<le> 1
   \<and> opt_overlap gapOptions = Some 1
   \<and> chunkDocument charCount gapDocument gapOptions =
       Inr [newChunk gapDocument 0 ''Aaaa. B.'' 8 [], newChunk gapDocument 1 ''C. Dddd.'' 8 []]
   \<and> \<not> overlaps ''Aaaa. B.'' ''C. Dddd.''"
  using two_sentences gap_chunks gap_overlaps by (simp add: gapOptions_def)

subsection \<open>Chunk numbering and token counts\<close>

lemma parse_fields:
  "SEBIChunkSchema_parse c = Inr c' \<Longrightarrow>
     chunk_index c' = chunk_index c \<and> chunk_id c' = chunk_id c \<and> tokens c' = tokens c
     \<and> content c' = content c \<and> document_id c' = document_id c
     \<and> section_hierarchy c' = section_hierarchy c"
  by (auto simp add: SEBIChunkSchema_parse_def split: if_splits)

lemma parse_newChunk_total:
  "doc_id document \<noteq> [] \<Longrightarrow> \<exists>c. SEBIChunkSchema_parse (newChunk document i t n h) = Inr c"
  by (simp add: SEBIChunkSchema_parse_def SEBIChunkSchema_issues_def newChunk_def)

lemma numbered_snoc:
  assumes "numbered document chunks"
      and "SEBIChunkSchema_parse (newChunk document (length chunks) t n h) = Inr c"
  shows "numbered document (chunks @ [c])"
  using assms parse_fields [OF assms(2)]
  by (simp add: numbered_def newChunk_def)

lemma counted_snoc:
  assumes "counted countTokens chunks"
      and "SEBIChunkSchema_parse (newChunk document i t (countTokens t) h) = Inr c"
  shows "counted countTokens (chunks @ [c])"
  using assms parse_fields [OF assms(2)]
  by (simp add: counted_def newChunk_def)

lemma pushTexts_inv:
  assumes "pushTexts countTokens document keep h ts (chunks, i) = Inr (chunks', i')"
      and "i = length chunks" and "numbered document chunks" and "counted countTokens chunks"
  shows "i' = length chunks' \<and> numbered document chunks' \<and> counted countTokens chunks'"
  using assms
proof (induction ts arbitrary: chunks i)
  case Nil
  then show ?case by auto
next
  case (Cons t ts)
  show ?case
  proof (cases "keep (countTokens t)")
    case False
    with Cons.prems have "pushTexts countTokens document keep h ts (chunks, i) = Inr (chunks', i')"
      by simp
    from Cons.IH [OF this Cons.prems(2-4)] show ?thesis .
  next
    case True
    with Cons.prems(1) obtain c where
      p: "SEBIChunkSchema_parse (newChunk document i t (countTokens t) h) = Inr c"
      and r: "pushTexts countTokens document keep h ts (chunks @ [c], Suc i) = Inr (chunks', i')"
      by (auto simp add: Let_def split: sum.splits)
    have "Suc i = length (chunks @ [c])" using Cons.prems(2) by simp
    moreover have "numbered document (chunks @ [c])"
      using Cons.prems(2,3) p by (auto intro: numbered_snoc)
    moreover have "counted countTokens (chunks @ [c])"
      using Cons.prems(4) p by (rule counted_snoc)
    ultimately show ?thesis using Cons.IH [OF r] by blast
  qed
qed

lemma pushTexts_total:
  "doc_id document \<noteq> [] \<Longrightarrow> \<exists>r. pushTexts countTokens document keep h ts acc = Inr r"
proof (induction ts arbitrary: acc)
  case Nil
  then show ?case by simp
next
  case (Cons t ts)
  obtain chunks i where acc: "acc = (chunks, i)" by (cases acc)
  from parse_newChunk_total [OF Cons.prems]
  obtain c where "SEBIChunkSchema_parse (newChunk document i t (countTokens t) h) = Inr c" by blast
  then show ?case using Cons.IH [OF Cons.prems] by (simp add: acc Let_def)
qed

lemma chunkBlocks_inv:
  assumes "chunkBlocks countTokens document maxTokens minTokens overlap nblocks blocks (chunks, i)
             = Inr (chunks', i')"
      and "i = length chunks" and "numbered document chunks" and "counted countTokens chunks"
  shows "i' = length chunks' \<and> numbered document chunks' \<and> counted countTokens chunks'"
  using assms
proof (induction blocks arbitrary: chunks i)
  case Nil
  then show ?case by auto
next
  case (Cons b blocks)
  let ?n = "countTokens (block_content b)"
  show ?case
  proof (cases "int ?n \<le> maxTokens")
    case fits: True
    show ?thesis
    proof (cases "int ?n \<ge> minTokens \<or> nblocks = 1")
      case False
      with fits Cons.prems(1)
      have "chunkBlocks countTokens document maxTokens minTokens overlap nblocks blocks (chunks, i)
              = Inr (chunks', i')"
        by (simp add: Let_def)
      from Cons.IH [OF this Cons.prems(2-4)] show ?thesis .
    next
      case True
      with fits Cons.prems(1) obtain c where
        p: "SEBIChunkSchema_parse (newChunk document i (block_content b) ?n (hierarchy b)) = Inr c"
        and r: "chunkBlocks countTokens document maxTokens minTokens overlap nblocks blocks
                  (chunks @ [c], Suc i) = Inr (chunks', i')"
        by (auto simp add: Let_def split: sum.splits)
      have "Suc i = length (chunks @ [c])" using Cons.prems(2) by simp
      moreover have "numbered document (chunks @ [c])"
        using Cons.prems(2,3) p by (auto intro: numbered_snoc)
      moreover have "counted countTokens (chunks @ [c])"
        using Cons.prems(4) p by (rule counted_snoc)
      ultimately show ?thesis using Cons.IH [OF r] by blast
    qed
  next
    case False
    let ?texts = "splitByTokens countTokens (block_content b) maxTokens overlap"
    from False Cons.prems(1) obtain chunks1 i1 where
      p: "pushTexts countTokens document (\<lambda>n. int n \<ge> minTokens \<or> length ?texts = 1)
            (hierarchy b) ?texts (chunks, i) = Inr (chunks1, i1)"
      and r: "chunkBlocks countTokens document maxTokens minTokens overlap nblocks blocks
                (chunks1, i1) = Inr (chunks', i')"
      by (auto simp add: Let_def split: sum.splits)
    from pushTexts_inv [OF p Cons.prems(2-4)] Cons.IH [OF r] show ?thesis by blast
  qed
qed

lemma chunkBlocks_total:
  "doc_id document \<noteq> [] \<Longrightarrow>
     \<exists>r. chunkBlocks countTokens document maxTokens minTokens overlap nblocks blocks acc = Inr r"
proof (induction blocks arbitrary: acc)
  case Nil
  then show ?case by simp
next
  case (Cons b blocks)
  obtain chunks i where acc: "acc = (chunks, i)" by (cases acc)
  let ?n = "countTokens (block_content b)"
  let ?texts = "splitByTokens countTokens (block_content b) maxTokens overlap"
  from parse_newChunk_total [OF Cons.prems]
  obtain c where c: "SEBIChunkSchema_parse (newChunk document i (block_content b) ?n (hierarchy b)) = Inr c"
    by blast
  from pushTexts_total [OF Cons.prems]
  obtain r where r: "pushTexts countTokens document (\<lambda>n. int n \<ge> minTokens \<or> length ?texts = 1)
            (hierarchy b) ?texts (chunks, i) = Inr r" by blast
  show ?case
    using Cons.IH [OF Cons.prems] c r by (simp add: acc Let_def)
qed

lemma chunkDocument_inv:
  assumes "chunkDocument countTokens document options = Inr chunks"
  shows "numbered document chunks \<and> counted countTokens chunks"
proof -
  have n0: "numbered document []" by (simp add: numbered_def)
  have c0: "counted countTokens []" by (simp add: counted_def)
  have l0: "0 = length ([] :: SEBIChunk list)" by simp
  show ?thesis
  proof (cases "extractSections (doc_content document) = []")
    case True
    with assms obtain keep ts i where
      "pushTexts countTokens document keep [] ts ([], 0) = Inr (chunks, i)"
      by (auto simp add: chunkDocument_def Let_def split: sum.splits)
    from pushTexts_inv [OF this l0 n0 c0] show ?thesis by blast
  next
    case False
    with assms obtain a b c n bs i where
      "chunkBlocks countTokens document a b c n bs ([], 0) = Inr (chunks, i)"
      by (auto simp add: chunkDocument_def Let_def split: sum.splits)
    from chunkBlocks_inv [OF this l0 n0 c0] show ?thesis by blast
  qed
qed

lemma chunkDocument_total:
  assumes "doc_id document \<noteq> []"
  shows "\<exists>chunks. chunkDocument countTokens document options = Inr chunks"
proof (cases "extractSections (doc_content document) = []")
  case True
  then show ?thesis
    using pushTexts_total [OF assms]
    by (simp add: chunkDocument_def Let_def split: sum.splits prod.splits) (metis sum.exhaust_sel sum.disc(1) Inl_Inr_False surj_pair)
next
  case False
  then show ?thesis
    using chunkBlocks_total [OF assms]
    by (simp add: chunkDocument_def Let_def split: sum.splits prod.splits) (metis sum.exhaust_sel sum.disc(1) Inl_Inr_False surj_pair)
qed

lemma tiny_sections: "extractSections ''A. B.'' = []"
  by code_simp

lemma tiny_split: "splitByTokens charCount ''A. B.'' 3 0 = [''A.'', ''B.'']"
  by code_simp

lemma tiny_chunks:
  "chunkDocument charCount tinyDocument tinyOptions =
     Inr [newChunk tinyDocument 0 ''A.'' 2 [], newChunk tinyDocument 1 ''B.'' 2 []]"
  by (simp add: chunkDocument_def tinyDocument_def tinyOptions_def tiny_sections tiny_split
      SEBIChunkSchema_parse_def SEBIChunkSchema_issues_def newChunk_def charCount_def Let_def)

text \<open>
  C6. Whenever \<open>chunkDocument\<close> returns, the chunk indices are \<open>0, 1, ..., n - 1\<close> in the
  order of the result, and the id of each chunk is the document id, \<open>-chunk-\<close> and the
  index in decimal. It returns for every document whose id is not empty (an empty
  document id fails the chunk schema).
\<close>

theorem chunkDocument_indices:
  "(chunkDocument countTokens document options = Inr chunks \<longrightarrow>
      map chunk_index chunks = [0..<length chunks]
      \<and> map chunk_id chunks = map (\<lambda>i. doc_id document @ ''-chunk-'' @ show_nat i) [0..<length chunks])
   \<and> (doc_id document \<noteq> [] \<longrightarrow> (\<exists>cs. chunkDocument countTokens document options = Inr cs))"
  using chunkDocument_inv [of countTokens document options chunks]
    chunkDocument_total [of document countTokens options]
  by (simp add: numbered_def)

theorem chunkDocument_indices_witness:
  "chunkDocument charCount tinyDocument tinyOptions
     = Inr [newChunk tinyDocument 0 ''A.'' 2 [], newChunk tinyDocument 1 ''B.'' 2 []]
   \<and> map chunk_index [newChunk tinyDocument 0 ''A.'' 2 [], newChunk tinyDocument 1 ''B.'' 2 []] = [0, 1]
   \<and> map chunk_id [newChunk tinyDocument 0 ''A.'' 2 [], newChunk tinyDocument 1 ''B.'' 2 []]
       = [''d-chunk-0'', ''d-chunk-1'']
   \<and> doc_id tinyDocument \<noteq> []"
  using chunkDocument_indices [of charCount tinyDocument tinyOptions
      "[newChunk tinyDocument 0 ''A.'' 2 [], newChunk tinyDocument 1 ''B.'' 2 []]"] tiny_chunks
  by (simp add: tinyDocument_def digit_def)

text \<open>
  C7. In every chunk that \<open>chunkDocument\<close> returns, \<open>tokens\<close> is the tokenizer's count of
  \<open>content\<close>.
\<close>

theorem chunkDocument_token_counts:
  "chunkDocument countTokens document options = Inr chunks \<Longrightarrow>
     list_all (\<lambda>c. tokens c = countTokens (content c)) chunks"
  using chunkDocument_inv [of countTokens document options chunks]
  by (simp add: counted_def)

theorem chunkDocument_token_counts_witness:
  "chunkDocument charCount tinyDocument tinyOptions
     = Inr [newChunk tinyDocument 0 ''A.'' 2 [], newChunk tinyDocument 1 ''B.'' 2 []]
   \<and> list_all (\<lambda>c. tokens c = charCount (content c))
         [newChunk tinyDocument 0 ''A.'' 2 [], newChunk tinyDocument 1 ''B.'' 2 []]"
  using chunkDocument_token_counts [OF tiny_chunks] tiny_chunks
  by simp



subsection \<open>Upserting chunks\<close>

lemma storeRetry_first:
  "operation s = (Inr v, s') \<Longrightarrow> retry operation 3 s = (Inr v, s')"
  by (simp add: retry_def eval_nat_numeral)

lemma buildPoints_total:
  "\<forall>t. toISO t \<noteq> None \<Longrightarrow> \<exists>ps. buildPoints toISO cs es = Inr ps"
proof (induction cs arbitrary: es)
  case Nil
  then show ?case by simp
next
  case (Cons c cs)
  have iso: "\<exists>r. isoOf toISO d = Inr r" for d
  proof (cases d)
    case None
    then show ?thesis by (simp add: isoOf_def)
  next
    case (Some t)
    have "toISO t \<noteq> None" using Cons.prems by blast
    then obtain y where "toISO t = Some y" by blast
    with Some show ?thesis by (simp add: isoOf_def)
  qed
  have "\<exists>p. buildPayload toISO c = Inr p"
  proof -
    obtain r where r: "isoOf toISO (cm_date (extractChunkMetadata c)) = Inr r" using iso by blast
    have "\<exists>d. normalizeDocumentPayload toISO (cm_document (extractChunkMetadata c)) = Inr d"
    proof (cases "cm_document (extractChunkMetadata c)")
      case None
      then show ?thesis by (simp add: normalizeDocumentPayload_def)
    next
      case (Some d)
      obtain q where "isoOf toISO (pd_date d) = Inr q" using iso by blast
      with Some show ?thesis by (simp add: normalizeDocumentPayload_def)
    qed
    then obtain d where "normalizeDocumentPayload toISO (cm_document (extractChunkMetadata c)) = Inr d"
      by blast
    with r show ?thesis by (simp add: buildPayload_def Let_def)
  qed
  then obtain p where p: "buildPayload toISO c = Inr p" by blast
  from Cons.IH [OF Cons.prems, of "tl es"] obtain ps where "buildPoints toISO cs (tl es) = Inr ps" by blast
  with p show ?case by simp
qed

lemma upsertBatch_total:
  assumes "\<forall>t. toISO t \<noteq> None" and "\<forall>k ps. upsert C k ps = None"
  shows "\<exists>s'. upsertBatch C toISO cs es s = (Inr (), s')"
proof -
  from buildPoints_total [OF assms(1)] obtain ps where "buildPoints toISO cs es = Inr ps" by blast
  then show ?thesis using assms(2) by (simp add: upsertBatch_def)
qed

lemma upsertLoop_count:
  "upsertLoop C toISO chunks embeddings success s = (Inr n, s') \<Longrightarrow> n = success + length chunks"
proof (induction C toISO chunks embeddings success s rule: upsertLoop.induct)
  case (1 C toISO chunks embeddings success s)
  show ?case
  proof (cases "chunks = []")
    case True
    with "1.prems" show ?thesis by (simp add: upsertLoop.simps)
  next
    case False
    let ?cb = "take DEFAULT_UPSERT_BATCH_SIZE chunks"
    let ?eb = "take DEFAULT_UPSERT_BATCH_SIZE embeddings"
    from False "1.prems" obtain u s1 where
      r: "retry (upsertBatch C toISO ?cb ?eb) 3 s = (Inr u, s1)"
      and rest: "upsertLoop C toISO (drop DEFAULT_UPSERT_BATCH_SIZE chunks)
                   (drop DEFAULT_UPSERT_BATCH_SIZE embeddings) (success + length ?cb) s1 = (Inr n, s')"
      by (subst (asm) upsertLoop.simps) (auto simp add: Let_def split: prod.splits sum.splits)
    from "1.IH" [OF False refl refl r [symmetric] refl rest]
    have "n = success + length ?cb + length (drop DEFAULT_UPSERT_BATCH_SIZE chunks)" .
    then show ?thesis by simp
  qed
qed

lemma upsertLoop_total:
  assumes "\<forall>t. toISO t \<noteq> None" and "\<forall>k ps. upsert C k ps = None"
  shows "\<exists>s'. upsertLoop C toISO chunks embeddings success s = (Inr (success + length chunks), s')"
proof (induction "length chunks" arbitrary: chunks embeddings success s rule: less_induct)
  case less
  show ?case
  proof (cases "chunks = []")
    case True
    then show ?thesis by (simp add: upsertLoop.simps)
  next
    case False
    let ?cb = "take DEFAULT_UPSERT_BATCH_SIZE chunks"
    let ?eb = "take DEFAULT_UPSERT_BATCH_SIZE embeddings"
    from upsertBatch_total [OF assms] obtain s1 where "upsertBatch C toISO ?cb ?eb s = (Inr (), s1)"
      by blast
    then have r: "retry (upsertBatch C toISO ?cb ?eb) 3 s = (Inr (), s1)" by (rule storeRetry_first)
    have "length (drop DEFAULT_UPSERT_BATCH_SIZE chunks) < length chunks"
      using False by (simp add: DEFAULT_UPSERT_BATCH_SIZE_def)
    from less [OF this, of "drop DEFAULT_UPSERT_BATCH_SIZE embeddings" "success + length ?cb" s1]
    obtain s' where "upsertLoop C toISO (drop DEFAULT_UPSERT_BATCH_SIZE chunks)
        (drop DEFAULT_UPSERT_BATCH_SIZE embeddings) (success + length ?cb) s1
          = (Inr (success + length ?cb + length (drop DEFAULT_UPSERT_BATCH_SIZE chunks)), s')"
      by blast
    then show ?thesis
      using False r by (subst upsertLoop.simps) (simp add: Let_def)
  qed
qed

text \<open>
  C10. With lists of different lengths \<open>upsertChunks\<close> throws
  \<open>Chunks and embeddings length mismatch\<close> and the state is the state before the call: no
  store call was made and the store holds what it held. With lists of equal length a
  returned count is the number of chunks, and the call does return that count when
  every payload can be built and the store accepts every upsert.
\<close>

theorem upsertChunks_length_guard:
  "(length chunks \<noteq> length embeddings \<longrightarrow>
      upsertChunks C toISO chunks embeddings s = (Inl (Error ''Chunks and embeddings length mismatch''), s))
   \<and> (length chunks = length embeddings \<and> upsertChunks C toISO chunks embeddings s = (Inr n, s')
        \<longrightarrow> n = length chunks)
   \<and> (length chunks = length embeddings \<and> (\<forall>t. toISO t \<noteq> None) \<and> (\<forall>k ps. upsert C k ps = None)
        \<longrightarrow> (\<exists>s''. upsertChunks C toISO chunks embeddings s = (Inr (length chunks), s'')))"
  using upsertLoop_count [of C toISO chunks embeddings 0 s n s']
    upsertLoop_total [of toISO C chunks embeddings 0 s]
  by (auto simp add: upsertChunks_def)

theorem upsertChunks_length_guard_witness:
  "upsertChunks (acceptingClient []) Some [storedChunk] [] world0
     = (Inl (Error ''Chunks and embeddings length mismatch''), world0)
   \<and> fst (upsertChunks (acceptingClient []) Some [storedChunk] [[1, 2]] world0) = Inr 1"
proof -
  have mismatch: "upsertChunks (acceptingClient []) Some [storedChunk] [] world0
        = (Inl (Error ''Chunks and embeddings length mismatch''), world0)"
    using upsertChunks_length_guard [of "[storedChunk]" "[]" "acceptingClient []" Some world0]
    by simp
  obtain s'' where "upsertChunks (acceptingClient []) Some [storedChunk] [[1, 2]] world0
        = (Inr (length [storedChunk]), s'')"
    using upsertChunks_length_guard [of "[storedChunk]" "[[1, 2]]" "acceptingClient []" Some world0]
    by (auto simp add: acceptingClient_def)
  then have "fst (upsertChunks (acceptingClient []) Some [storedChunk] [[1, 2]] world0) = Inr 1"
    by simp
  with mismatch show ?thesis by simp
qed

subsection \<open>Result reconstruction\<close>

lemma storedChunk_parse: "SEBIChunkSchema_parse storedChunk = Inr storedChunk"
  by (simp add: SEBIChunkSchema_parse_def SEBIChunkSchema_issues_def storedChunk_def)

lemma parse_issue:
  "SEBIDocumentSchema_issues isUrl d \<noteq> [] \<Longrightarrow> \<exists>m. SEBIDocumentSchema_parse isUrl d = Inl (ZodError m)"
  by (simp add: SEBIDocumentSchema_parse_def)

lemma bogus_document:
  "\<exists>m. payloadToDocument isUrl parseDate (the (hit_payload bogusHit)) storedChunk s = Inl (ZodError m)"
  unfolding payloadToDocument_def Let_def
  by (rule parse_issue)
     (simp add: SEBIDocumentSchema_issues_def bogusHit_def orElse_def CATEGORY_KEYS_def)

lemma written_payload:
  "hit_payload writtenHit = Some \<lparr> p_chunk = Some storedChunk, p_document = None,
         p_circular_id = Some ''doc-1'', p_category = Some ''general'',
         p_date = None, p_chapter = Some ''1 Introduction'', p_url = None,
         p_title = None, p_metadata = Some [] \<rparr>"
  by (simp add: writtenHit_def buildPayload_def extractChunkMetadata_def isoOf_def
      normalizeDocumentPayload_def storedChunk_def Let_def)

lemma written_document:
  "\<not> isUrl [] \<Longrightarrow>
     \<exists>m. payloadToDocument isUrl parseDate (the (hit_payload writtenHit)) storedChunk s = Inl (ZodError m)"
  unfolding payloadToDocument_def Let_def
  by (rule parse_issue) (simp add: SEBIDocumentSchema_issues_def written_payload orElse_def)

text \<open>
  C4, where the code departs from it. A hit whose chunk passes \<open>safeParse\<close> but whose
  rebuilt document fails \<open>SEBIDocumentSchema.parse\<close> is not skipped: the ZodError leaves
  \<open>mapHitToResult\<close> and \<open>semanticSearch\<close> rejects. This happens for a stored category
  outside the enumeration, whatever the URL test is; and, \<open>''\<close> not being a URL, for
  the payload that \<open>buildPayload\<close> itself writes for a chunk without metadata, which
  has no url.
\<close>

theorem semanticSearch_propagates_document_error:
  "(\<exists>m. fst (semanticSearch (acceptingClient [bogusHit]) isUrl parseDate v filters 5 s) = Inl (ZodError m))
   \<and> (\<not> isUrl [] \<longrightarrow>
        (\<exists>m. fst (semanticSearch (acceptingClient [writtenHit]) isUrl parseDate v filters 5 s)
               = Inl (ZodError m)))"
proof (intro conjI impI)
  obtain m where "payloadToDocument isUrl parseDate (the (hit_payload bogusHit)) storedChunk
      (storeCall (Search 5) s) = Inl (ZodError m)"
    using bogus_document by blast
  then show "\<exists>m. fst (semanticSearch (acceptingClient [bogusHit]) isUrl parseDate v filters 5 s) = Inl (ZodError m)"
    by (simp add: semanticSearch_def acceptingClient_def mapHitToResult_def storedChunk_parse bogusHit_def)
next
  assume "\<not> isUrl []"
  then obtain m where "payloadToDocument isUrl parseDate (the (hit_payload writtenHit)) storedChunk
      (storeCall (Search 5) s) = Inl (ZodError m)"
    using written_document by blast
  then show "\<exists>m. fst (semanticSearch (acceptingClient [writtenHit]) isUrl parseDate v filters 5 s) = Inl (ZodError m)"
    by (simp add: semanticSearch_def acceptingClient_def mapHitToResult_def storedChunk_parse written_payload)
qed

theorem semanticSearch_propagates_document_error_witness:
  "\<not> httpsUrl []
   \<and> (\<exists>m. fst (semanticSearch (acceptingClient [writtenHit]) httpsUrl (\<lambda>t. InvalidDate) [] None 5 world0)
             = Inl (ZodError m))"
  using semanticSearch_propagates_document_error [of httpsUrl "\<lambda>t. InvalidDate" "[]" None world0]
  by (simp add: httpsUrl_def)

subsection \<open>Rounding to doubles\<close>



















subsection \<open>Reciprocal rank fusion\<close>


































subsection \<open>Order of validation and outside calls in ingestion\<close>

lemma storeCall_keeps [simp]:
  "providerCalls (storeCall e s) = providerCalls s"
  "cache (storeCall e s) = cache s"
  "points (storeCall e s) = points s"
  "providerLog (storeCall e s) = providerLog s @ (if isProviderCall e then [e] else [])"
  "upsertLog (storeCall e s) = upsertLog s @ (if isUpsert e then [e] else [])"
  by (simp_all add: storeCall_def emit_def providerLog_def upsertLog_def)

lemma emit_keeps [simp]:
  "points (emit e s) = points s"
  "upsertLog (emit e s) = upsertLog s @ (if isUpsert e then [e] else [])"
  by (simp_all add: emit_def upsertLog_def)

lemma createIndexes_keeps:
  "providerCalls (snd (createIndexes C fs failure s)) = providerCalls s
   \<and> cache (snd (createIndexes C fs failure s)) = cache s
   \<and> points (snd (createIndexes C fs failure s)) = points s
   \<and> providerLog (snd (createIndexes C fs failure s)) = providerLog s
   \<and> upsertLog (snd (createIndexes C fs failure s)) = upsertLog s"
  by (induction fs arbitrary: failure s) (auto simp add: Let_def)

lemma storeLog_steps:
  "storeLog (storeCall e s) = storeLog s @ (if isStoreCall e then [e] else [])"
  "storeLog (emit e s) = storeLog s @ (if isStoreCall e then [e] else [])"
  by (simp_all add: storeLog_def storeCall_def emit_def)

lemma createIndexes_storeLog:
  "\<exists>rest. storeLog (snd (createIndexes C fs failure s)) = storeLog s @ rest"
proof (induction fs arbitrary: failure s)
  case Nil
  then show ?case by simp
next
  case (Cons f fs)
  obtain field schema where f: "f = (field, schema)" by (cases f)
  let ?s1 = "storeCall (CreatePayloadIndex field schema) s"
  let ?failure = "case failure of None \<Rightarrow> createPayloadIndex C (storeCalls s) field | Some e \<Rightarrow> Some e"
  from Cons.IH [of ?failure ?s1]
  obtain rest where "storeLog (snd (createIndexes C fs ?failure ?s1)) = storeLog ?s1 @ rest" by blast
  then have "storeLog (snd (createIndexes C (f # fs) failure s))
               = storeLog s @ CreatePayloadIndex field schema # rest"
    by (simp add: f Let_def storeLog_steps)
  then show ?case by blast
qed

declare createIndexes.simps [simp del]

lemma initializeCollection_asks_first:
  "\<exists>rest. storeLog (snd (initializeCollection C s)) = storeLog s @ GetCollection # rest"
proof -
  let ?fields = "[(''circular_id'', ''keyword''), (''category'', ''keyword''),
                        (''chapter'', ''keyword''), (''date'', ''datetime'')]"
  show ?thesis
  proof (cases "getCollection C (storeCalls s)")
    case None
    then show ?thesis by (simp add: initializeCollection_def collectionExists_def storeLog_steps)
  next
    case (Some e)
    let ?s1 = "emit (Log Warn (''Collection '' @ collectionName C @ '' not found: '' @ stringifyError e))
                 (storeCall GetCollection s)"
    have s1: "storeLog ?s1 = storeLog s @ [GetCollection]" by (simp add: storeLog_steps)
    show ?thesis
    proof (cases "createCollection C (storeCalls ?s1)")
      case failed: (Some e')
      with Some show ?thesis
        by (simp add: initializeCollection_def collectionExists_def storeLog_steps)
    next
      case None
      obtain f s2 where c: "createIndexes C ?fields None (storeCall CreateCollection ?s1) = (f, s2)"
        by (cases "createIndexes C ?fields None (storeCall CreateCollection ?s1)")
      from createIndexes_storeLog [of C ?fields None "storeCall CreateCollection ?s1"] c
      obtain rest where "storeLog s2 = storeLog (storeCall CreateCollection ?s1) @ rest" by auto
      then have "storeLog s2 = storeLog s @ GetCollection # CreateCollection # rest"
        by (simp add: storeLog_steps)
      with Some None c show ?thesis
        by (cases f) (simp_all add: initializeCollection_def collectionExists_def)
    qed
  qed
qed

lemma initializeCollection_keeps:
  "providerCalls (snd (initializeCollection C s)) = providerCalls s
   \<and> cache (snd (initializeCollection C s)) = cache s
   \<and> points (snd (initializeCollection C s)) = points s
   \<and> providerLog (snd (initializeCollection C s)) = providerLog s
   \<and> upsertLog (snd (initializeCollection C s)) = upsertLog s"
proof -
  let ?fields = "[(''circular_id'', ''keyword''), (''category'', ''keyword''),
                        (''chapter'', ''keyword''), (''date'', ''datetime'')]"
  show ?thesis
  proof (cases "getCollection C (storeCalls s)")
    case None
    then show ?thesis by (simp add: initializeCollection_def collectionExists_def)
  next
    case (Some e)
    let ?s1 = "emit (Log Warn (''Collection '' @ collectionName C @ '' not found: '' @ stringifyError e))
                 (storeCall GetCollection s)"
    show ?thesis
    proof (cases "createCollection C (storeCalls ?s1)")
      case failed: (Some e')
      with Some show ?thesis by (simp add: initializeCollection_def collectionExists_def)
    next
      case None
      obtain f s2 where c: "createIndexes C ?fields None (storeCall CreateCollection ?s1) = (f, s2)"
        by (cases "createIndexes C ?fields None (storeCall CreateCollection ?s1)")
      from createIndexes_keeps [of C ?fields None "storeCall CreateCollection ?s1"] c
      have "providerCalls s2 = providerCalls s \<and> cache s2 = cache s \<and> points s2 = points s
            \<and> providerLog s2 = providerLog s \<and> upsertLog s2 = upsertLog s"
        by simp
      with Some None c show ?thesis
        by (cases f) (simp_all add: initializeCollection_def collectionExists_def)
    qed
  qed
qed

lemma validateMetadata_after_schema:
  "SEBIDocumentSchema_parse isUrl d = Inr m \<Longrightarrow> validateMetadata (Some (partialOf m)) = Inr ()"
  by (auto simp add: SEBIDocumentSchema_parse_def SEBIDocumentSchema_issues_def validateMetadata_def
      partialOf_def CATEGORY_KEYS_def split: if_splits)

lemma ingestPDF_invalid_metadata:
  assumes init: "initializeCollection C s = (Inr (), s1)"
      and read: "readFile F (resolvePath F cfg inputPath) = Inr buffer"
      and parse: "parser F buffer = Inr document"
      and invalid: "mergeMetadata isUrl document overrides = Inl e"
  shows "\<exists>s'. ingestPDF g P md5 C toISO isUrl countTokens F cfg inputPath overrides s = Some (Inl e, s')
           \<and> providerCalls s' = providerCalls s \<and> providerLog s' = providerLog s
           \<and> upsertLog s' = upsertLog s \<and> points s' = points s
           \<and> trace s' = trace s1 @ [Log Info (''Ingesting PDF: '' @ resolvePath F cfg inputPath),
                                     ReadFile (resolvePath F cfg inputPath), ParsePdf]
           \<and> storeLog s' = storeLog s1
           \<and> (\<exists>rest. storeLog s1 = storeLog s @ GetCollection # rest)"
proof -
  let ?p = "resolvePath F cfg inputPath"
  let ?s' = "emit ParsePdf (emit (ReadFile ?p) (emit (Log Info (''Ingesting PDF: '' @ ?p)) s1))"
  from invalid have run: "ingestPDF g P md5 C toISO isUrl countTokens F cfg inputPath overrides s = Some (Inl e, ?s')"
    by (auto simp add: ingestPDF_def init read parse Let_def)
  from initializeCollection_keeps [of C s] init
  have "providerCalls s1 = providerCalls s \<and> cache s1 = cache s \<and> points s1 = points s
        \<and> providerLog s1 = providerLog s \<and> upsertLog s1 = upsertLog s"
    by simp
  then have "providerCalls ?s' = providerCalls s \<and> providerLog ?s' = providerLog s
           \<and> upsertLog ?s' = upsertLog s \<and> points ?s' = points s"
    by simp
  moreover have "trace ?s' = trace s1 @ [Log Info (''Ingesting PDF: '' @ ?p), ReadFile ?p, ParsePdf]"
    by simp
  moreover have "storeLog ?s' = storeLog s1" by (simp add: storeLog_steps)
  moreover from initializeCollection_asks_first [of C s] init
  have "\<exists>rest. storeLog s1 = storeLog s @ GetCollection # rest" by simp
  ultimately show ?thesis using run by blast
qed

lemma equity_steps:
  "initializeCollection (acceptingClient []) world0 = (Inr (), storeCall GetCollection world0)
   \<and> readFile onePdf (resolvePath onePdf plainConfig ''circular.pdf'') = Inr ''%PDF''
   \<and> parser onePdf ''%PDF'' = Inr equityDocument
   \<and> mergeMetadata httpsUrl equityDocument None = Inl (ZodError ''category; '')"
  by code_simp

lemma equity_run:
  "map_option fst (ingestPDF defaultGenerator echoProvider id (acceptingClient []) Some httpsUrl charCount
       onePdf plainConfig ''circular.pdf'' None world0) = Some (Inl (ZodError ''category; ''))
   \<and> map_option (storeLog \<circ> snd) (ingestPDF defaultGenerator echoProvider id (acceptingClient []) Some httpsUrl
       charCount onePdf plainConfig ''circular.pdf'' None world0) = Some [GetCollection]"
  by code_simp

text \<open>
  C3, as the code has it. \<open>ingestPDF\<close> first calls \<open>initializeCollection\<close>, which asks
  the vector store for the collection and creates it and its indexes when it is missing;
  then it reads and parses the file; then \<open>mergeMetadata\<close> parses the merged document
  with the document schema. When that parse fails, \<open>ingestPDF\<close> throws its error. By then
  the store has been called, first of all for the collection, and the file has been read
  and parsed; no embedding-provider call and no upsert was made, and the store holds what
  it held. A document that passes the schema passes every check of \<open>validateMetadata\<close>.
\<close>

theorem ingestPDF_validation_order:
  assumes "initializeCollection C s = (Inr (), s1)"
      and "readFile F (resolvePath F cfg inputPath) = Inr buffer"
      and "parser F buffer = Inr document"
  shows "(mergeMetadata isUrl document overrides = Inl e \<longrightarrow>
            (\<exists>s'. ingestPDF g P md5 C toISO isUrl countTokens F cfg inputPath overrides s = Some (Inl e, s')
               \<and> providerCalls s' = providerCalls s \<and> providerLog s' = providerLog s
               \<and> upsertLog s' = upsertLog s \<and> points s' = points s
               \<and> trace s' = trace s1 @ [Log Info (''Ingesting PDF: '' @ resolvePath F cfg inputPath),
                                         ReadFile (resolvePath F cfg inputPath), ParsePdf]
               \<and> storeLog s' = storeLog s1
               \<and> (\<exists>rest. storeLog s1 = storeLog s @ GetCollection # rest)))
         \<and> (\<forall>merged. mergeMetadata isUrl document overrides = Inr merged \<longrightarrow>
               validateMetadata (Some (partialOf merged)) = Inr ())"
proof (intro conjI impI allI)
  assume "mergeMetadata isUrl document overrides = Inl e"
  with assms show "\<exists>s'. ingestPDF g P md5 C toISO isUrl countTokens F cfg inputPath overrides s = Some (Inl e, s')
               \<and> providerCalls s' = providerCalls s \<and> providerLog s' = providerLog s
               \<and> upsertLog s' = upsertLog s \<and> points s' = points s
               \<and> trace s' = trace s1 @ [Log Info (''Ingesting PDF: '' @ resolvePath F cfg inputPath),
                                         ReadFile (resolvePath F cfg inputPath), ParsePdf]
               \<and> storeLog s' = storeLog s1
               \<and> (\<exists>rest. storeLog s1 = storeLog s @ GetCollection # rest)"
    by (rule ingestPDF_invalid_metadata)
next
  fix merged
  assume "mergeMetadata isUrl document overrides = Inr merged"
  then show "validateMetadata (Some (partialOf merged)) = Inr ()"
    by (auto simp add: mergeMetadata_def split: option.splits intro: validateMetadata_after_schema)
qed

theorem ingestPDF_validation_order_witness:
  "\<exists>s'. ingestPDF defaultGenerator echoProvider id (acceptingClient []) Some httpsUrl charCount
          onePdf plainConfig ''circular.pdf'' None world0 = Some (Inl (ZodError ''category; ''), s')
        \<and> providerCalls s' = 0 \<and> providerLog s' = [] \<and> upsertLog s' = [] \<and> points s' = []
        \<and> trace s' = [GetCollection, Log Info ''Ingesting PDF: /corpus/circular.pdf'',
                       ReadFile ''/corpus/circular.pdf'', ParsePdf]
        \<and> storeLog s' = [GetCollection]"
proof -
  have init: "initializeCollection (acceptingClient []) world0 = (Inr (), storeCall GetCollection world0)"
    and read: "readFile onePdf (resolvePath onePdf plainConfig ''circular.pdf'') = Inr ''%PDF''"
    and parse: "parser onePdf ''%PDF'' = Inr equityDocument"
    and invalid: "mergeMetadata httpsUrl equityDocument None = Inl (ZodError ''category; '')"
    using equity_steps by simp_all
  have path: "resolvePath onePdf plainConfig ''circular.pdf'' = ''/corpus/circular.pdf''"
    by code_simp
  from ingestPDF_validation_order [OF init read parse, of httpsUrl None "ZodError ''category; ''"
      defaultGenerator echoProvider id Some charCount] invalid
  show ?thesis
    by (simp add: world0_def providerLog_def upsertLog_def storeLog_def storeCall_def emit_def path)
qed

text \<open>
  A file whose parsed document names the category \<open>equity\<close>: the ingestion fails with
  the schema error for the category, and by then the vector store has been asked for
  the collection.
\<close>

theorem ingestPDF_store_call_first_counterexample:
  "map_option fst (ingestPDF defaultGenerator echoProvider id (acceptingClient []) Some httpsUrl charCount
       onePdf plainConfig ''circular.pdf'' None world0) = Some (Inl (ZodError ''category; ''))
   \<and> map_option (storeLog \<circ> snd) (ingestPDF defaultGenerator echoProvider id (acceptingClient []) Some
       httpsUrl charCount onePdf plainConfig ''circular.pdf'' None world0) = Some [GetCollection]
   \<and> map_option (storeLog \<circ> snd) (ingestPDF defaultGenerator echoProvider id (acceptingClient []) Some
       httpsUrl charCount onePdf plainConfig ''circular.pdf'' None world0) \<noteq> Some []"
proof -
  let ?calls = "map_option (storeLog \<circ> snd) (ingestPDF defaultGenerator echoProvider id
       (acceptingClient []) Some httpsUrl charCount onePdf plainConfig ''circular.pdf'' None world0)"
  have calls: "?calls = Some [GetCollection]"
    using equity_run by (rule conjunct2)
  then have "?calls \<noteq> Some []"
    by (simp only: simp_thms) simp
  with equity_run show ?thesis
    by (simp only: simp_thms)
qed

end
